theory Spec2Isabelle
  imports Complex_Main
begin

section \<open>The NEAR explorer backend: telemetry, result envelopes, the sync engine\<close>

text \<open>
  The development follows \<^verbatim>\<open>backend/src/index.js\<close> and the HTTP telemetry handler.
  JavaScript values that may be \<^verbatim>\<open>undefined\<close> are values of the type \<open>'a js\<close>.
\<close>

datatype 'a js = Undefined | Defined 'a

subsection \<open>The node-telemetry procedure\<close>

text \<open>The report a node sends (the only element of the procedure's argument list).\<close>

record nodeInfo =
  node_id :: string
  account_id :: string
  ip_address :: string
  latest_block_height :: nat

text \<open>The attributes handed to \<^verbatim>\<open>models.Node.upsert\<close>.\<close>

record NodeRow =
  nodeId :: string
  moniker :: string
  accountId :: string
  ipAddress :: string
  lastSeen :: nat
  lastHeight :: nat

text \<open>
  Modelled from the spec: \<^verbatim>\<open>models.Node\<close> is not part of the sources. The Node table has
  the primary key \<open>node_id\<close> and is "upserted on every telemetry report": a map from the
  key to the row, where an upsert replaces the row stored under the key.
\<close>

type_synonym node_table = "string \<rightharpoonup> NodeRow"

definition Node_upsert :: "NodeRow \<Rightarrow> node_table \<Rightarrow> node_table" where
  "Node_upsert row tbl = tbl(nodeId row \<mapsto> row)"

text \<open>
  \<^verbatim>\<open>wampHandlers["node-telemetry"]\<close>; \<open>now\<close> is the value of \<^verbatim>\<open>Date.now()\<close> at the call.
\<close>

definition node_telemetry_row :: "nat \<Rightarrow> nodeInfo \<Rightarrow> NodeRow" where
  "node_telemetry_row now info =
     \<lparr> nodeId = node_id info,
       moniker = account_id info,
       accountId = account_id info,
       ipAddress = ip_address info,
       lastSeen = now,
       lastHeight = latest_block_height info \<rparr>"

definition node_telemetry :: "nat \<Rightarrow> nodeInfo \<Rightarrow> node_table \<Rightarrow> node_table" where
  "node_telemetry now info tbl = Node_upsert (node_telemetry_row now info) tbl"

subsection \<open>Promises and the Result envelope\<close>

text \<open>
  A promise is observed in one of three conditions: fulfilled with a value, rejected with
  a reason, or never settled.
\<close>

datatype ('a, 'e) promise = Fulfilled 'a | Rejected 'e | Pending

text \<open>
  \<^verbatim>\<open>class Result\<close>: the method is spelt \<^verbatim>\<open>contructor\<close>, so \<^verbatim>\<open>new Result()\<close> assigns
  nothing; both fields read as \<^verbatim>\<open>undefined\<close> until they are assigned.
\<close>

record ('v, 'e) Result =
  r_value :: "'v js"
  r_error :: "'e js"

definition new_Result :: "('v, 'e) Result" where
  "new_Result = \<lparr> r_value = Undefined, r_error = Undefined \<rparr>"

definition isError :: "('v, 'e) Result \<Rightarrow> bool" where
  "isError r = (r_error r \<noteq> Undefined)"

text \<open>
  \<^verbatim>\<open>p.then(f)\<close> and \<^verbatim>\<open>p.catch(g)\<close> for callbacks that update the payload and return
  nothing: the second component is the payload the callbacks close over.
\<close>

fun then_do :: "('a \<Rightarrow> 's \<Rightarrow> 's) \<Rightarrow> ('a, 'e) promise \<times> 's \<Rightarrow> (unit, 'e) promise \<times> 's" where
  "then_do f (Fulfilled a, s) = (Fulfilled (), f a s)"
| "then_do f (Rejected e, s) = (Rejected e, s)"
| "then_do f (Pending, s) = (Pending, s)"

fun catch_do :: "('e \<Rightarrow> 's \<Rightarrow> 's) \<Rightarrow> (unit, 'e) promise \<times> 's \<Rightarrow> (unit, 'e) promise \<times> 's" where
  "catch_do g (Fulfilled a, s) = (Fulfilled a, s)"
| "catch_do g (Rejected e, s) = (Fulfilled (), g e s)"
| "catch_do g (Pending, s) = (Pending, s)"

text \<open>
  \<^verbatim>\<open>promiseResult\<close>: the outer promise is resolved with the payload by the last
  \<^verbatim>\<open>then\<close>; nothing ever calls its \<^verbatim>\<open>reject\<close>.
\<close>

definition promiseResult :: "('v js, 'e js) promise \<Rightarrow> (('v, 'e) Result, 'x) promise" where
  "promiseResult promise =
     (let payload = new_Result;
          st1 = then_do (\<lambda>result p. p\<lparr>r_value := result\<rparr>) (promise, payload);
          st2 = catch_do (\<lambda>error p. p\<lparr>r_error := error\<rparr>) st1;
          st3 = then_do (\<lambda>_ p. p) st2
      in case fst st3 of Fulfilled _ \<Rightarrow> Fulfilled (snd st3) | Rejected _ \<Rightarrow> Pending | Pending \<Rightarrow> Pending)"

text \<open>
  \<^verbatim>\<open>Promise.all\<close>: rejects as soon as one element has rejected, is fulfilled with the
  list of values when all elements are fulfilled, and stays pending otherwise.
\<close>

fun promise_all :: "('a, 'e) promise list \<Rightarrow> ('a list, 'e) promise" where
  "promise_all [] = Fulfilled []"
| "promise_all (Fulfilled a # ps) =
     (case promise_all ps of
        Fulfilled as \<Rightarrow> Fulfilled (a # as)
      | Rejected e \<Rightarrow> Rejected e
      | Pending \<Rightarrow> Pending)"
| "promise_all (Rejected e # ps) = Rejected e"
| "promise_all (Pending # ps) =
     (case promise_all ps of Rejected e \<Rightarrow> Rejected e | _ \<Rightarrow> Pending)"

subsection \<open>JavaScript numbers\<close>

text \<open>
  A JavaScript number is an IEEE-754 binary64 value: 53 significant bits, results rounded
  to the nearest representable value, ties to the even significand. Only non-negative
  values between \<open>2^-1022\<close> and \<open>2^1024\<close> occur below, so subnormal values and overflow are
  left out. \<open>round_half_even a b\<close> is the integer nearest to \<open>a / b\<close>.
\<close>

definition round_half_even :: "nat \<Rightarrow> nat \<Rightarrow> nat" where
  "round_half_even a b =
     (let q = a div b; r = a mod b
      in if 2 * r < b then q
         else if b < 2 * r then q + 1
         else if even q then q else q + 1)"

text \<open>The least \<open>k \<ge> k0\<close> with \<open>a < b * 2^k\<close>, and the least \<open>s \<ge> s0\<close> with \<open>b \<le> a * 2^s\<close>.\<close>

function up_shift :: "nat \<Rightarrow> nat \<Rightarrow> nat \<Rightarrow> nat" where
  "up_shift a b k = (if b = 0 \<or> a < b * 2 ^ k then k else up_shift a b (k + 1))"
  by pat_completeness auto
termination
proof (relation "measure (\<lambda>(a, b, k). a + 1 - b * 2 ^ k)", goal_cases)
  case 1
  show ?case by simp
next
  case (2 a b k)
  define x where "x = b * 2 ^ k"
  from 2 have "0 < x" "x \<le> a" by (simp_all add: x_def)
  then have "Suc a - 2 * x < Suc a - x" by arith
  then show ?case by (simp add: x_def mult.left_commute)
qed

function down_shift :: "nat \<Rightarrow> nat \<Rightarrow> nat \<Rightarrow> nat" where
  "down_shift a b s = (if a = 0 \<or> b \<le> a * 2 ^ s then s else down_shift a b (s + 1))"
  by pat_completeness auto
termination
proof (relation "measure (\<lambda>(a, b, s). b - a * 2 ^ s)", goal_cases)
  case 1
  show ?case by simp
next
  case (2 a b s)
  define x where "x = a * 2 ^ s"
  from 2 have "0 < x" "x < b" by (simp_all add: x_def)
  then have "b - 2 * x < b - x" by arith
  then show ?case by (simp add: x_def mult.left_commute)
qed

declare up_shift.simps [simp del] down_shift.simps [simp del]

text \<open>
  \<open>double_div_floor a b\<close> is the integer part of the binary64 value of \<^verbatim>\<open>a / b\<close> for
  non-negative integers \<open>a\<close> and \<open>b > 0\<close> that are binary64 values themselves: the quotient
  is scaled by a power of two until its integer part has 53 bits, rounded there, and
  scaled back.
\<close>

definition double_div_floor :: "nat \<Rightarrow> nat \<Rightarrow> nat" where
  "double_div_floor a b =
     (if a = 0 then 0
      else if 2 ^ 53 * b \<le> a then
        (let k = up_shift a (2 ^ 53 * b) 0 in round_half_even a (b * 2 ^ k) * 2 ^ k)
      else
        (let s = down_shift a (2 ^ 52 * b) 0 in round_half_even (a * 2 ^ s) b div 2 ^ s))"

text \<open>
  The number that \<^verbatim>\<open>JSON.parse\<close> yields for the integer literal \<open>n\<close>: the binary64 value
  nearest to \<open>n\<close> (an integer; \<open>n\<close> itself below \<open>2^53\<close>).
\<close>

definition js_number :: "nat \<Rightarrow> nat" where
  "js_number n = double_div_floor n 1"

text \<open>
  \<^verbatim>\<open>parseInt(blockInfo.header.timestamp / 1000000)\<close> for a header timestamp given by the
  node as the integer \<open>ts\<close> of nanoseconds, \<open>ts < 2^64\<close>. \<^verbatim>\<open>parseInt\<close> prints its argument and
  reads the digits before the decimal point; for the quotients that occur (zero, or at
  least \<open>10^-6\<close> and below \<open>10^21\<close>) the number is printed in positional notation, so the
  result is the integer part.
\<close>

definition timestamp_ms :: "nat \<Rightarrow> nat" where
  "timestamp_ms ts = double_div_floor (js_number ts) 1000000"

text \<open>
  Heights are JavaScript numbers with integer values. \<open>js_int i\<close> is the binary64 value
  nearest to the integer \<open>i\<close>; the sum and the difference of two such numbers are the
  binary64 values nearest to the exact results. Halving a binary64 value is exact, so
  \<^verbatim>\<open>Math.floor((a + b) / 2)\<close> is \<open>js_add a b div 2\<close>.
\<close>

definition js_int :: "int \<Rightarrow> int" where
  "js_int i = (if i < 0 then - int (js_number (nat (- i))) else int (js_number (nat i)))"

definition js_add :: "int \<Rightarrow> int \<Rightarrow> int" where
  "js_add a b = js_int (a + b)"

definition js_sub :: "int \<Rightarrow> int \<Rightarrow> int" where
  "js_sub a b = js_int (a - b)"

text \<open>
  A setting is \<^verbatim>\<open>process.env.NAME || default\<close>: a string of the environment or the default
  number. The code only compares it with a number and passes it to \<^verbatim>\<open>splice\<close>, both of
  which convert it to a number first; a setting is kept as that number, which may be
  \<^verbatim>\<open>NaN\<close> or infinite.
\<close>

datatype js_num = NaN | Finite rat | Pos_infinity | Neg_infinity

text \<open>\<^verbatim>\<open>n > setting\<close> and \<^verbatim>\<open>n <= setting\<close> for an integer \<open>n\<close>.\<close>

fun js_gt :: "int \<Rightarrow> js_num \<Rightarrow> bool" where
  "js_gt n NaN = False"
| "js_gt n (Finite r) = (r < of_int n)"
| "js_gt n Pos_infinity = False"
| "js_gt n Neg_infinity = True"

fun js_le :: "int \<Rightarrow> js_num \<Rightarrow> bool" where
  "js_le n NaN = False"
| "js_le n (Finite r) = (of_int n \<le> r)"
| "js_le n Pos_infinity = True"
| "js_le n Neg_infinity = False"

text \<open>
  The number of elements \<^verbatim>\<open>array.splice(0, setting)\<close> removes from an array of the given
  length: the setting truncated to an integer and clamped between 0 and the length.
\<close>

fun delete_count :: "js_num \<Rightarrow> nat \<Rightarrow> nat" where
  "delete_count NaN len = 0"
| "delete_count (Finite r) len = (if r \<le> 0 then 0 else min len (nat \<lfloor>r\<rfloor>))"
| "delete_count Pos_infinity len = len"
| "delete_count Neg_infinity len = 0"

subsection \<open>Blocks, rows and the store\<close>

text \<open>
  What \<^verbatim>\<open>nearRpc.block\<close> delivers. Hashes are base58 strings, for which \<^verbatim>\<open>toBase58\<close>
  returns its argument (its other branch, which encodes a byte array with the bs58
  library, is not taken for strings). A transaction body is an object with the kind as
  its key; it is kept as the list of its entries, and the arguments as the list of their
  string fields.
\<close>

record header =
  hash :: string
  height :: int
  prev_hash :: string
  timestamp :: nat
  total_weight_num :: nat

record transaction =
  tx_hash :: string
  body :: "(string \<times> (string \<times> string) list) list"

record blockInfo =
  header :: header
  transactions :: "transaction list"

definition toBase58 :: "string \<Rightarrow> string" where
  "toBase58 input = input"

record BlockRow =
  b_hash :: string
  b_height :: int
  b_prevHash :: string
  b_timestamp :: nat
  b_weight :: nat
  b_authorId :: string
  b_listOfApprovals :: string

record ChunkRow =
  c_hash :: string
  c_blockHash :: string
  c_shardId :: string
  c_authorId :: string

record TransactionRow =
  t_hash :: string
  t_originator :: "string js"
  t_destination :: string
  t_kind :: string
  t_args :: "(string \<times> string) list"
  t_parentHash :: "string option"
  t_chunkHash :: string
  t_status :: string
  t_logs :: string

text \<open>The errors that reach the catch clauses of \<^verbatim>\<open>saveBlocks\<close>.\<close>

datatype exn = TypeError string | DatabaseError string

text \<open>
  The row builders of \<^verbatim>\<open>saveBlocks\<close>. Reading \<^verbatim>\<open>.header\<close> of \<^verbatim>\<open>undefined\<close>, and reading
  \<^verbatim>\<open>.originator\<close> of the arguments of a body without a key, throw a TypeError.
\<close>

definition blockRow :: "blockInfo js \<Rightarrow> exn + BlockRow" where
  "blockRow b =
     (case b of
        Undefined \<Rightarrow> Inl (TypeError ''header'')
      | Defined blockInfo \<Rightarrow>
          Inr \<lparr> b_hash = toBase58 (hash (header blockInfo)),
                b_height = height (header blockInfo),
                b_prevHash = toBase58 (prev_hash (header blockInfo)),
                b_timestamp = timestamp_ms (timestamp (header blockInfo)),
                b_weight = total_weight_num (header blockInfo),
                b_authorId = ''n/a'',
                b_listOfApprovals = ''n/a'' \<rparr>)"

definition chunkRow :: "blockInfo js \<Rightarrow> exn + ChunkRow" where
  "chunkRow b =
     (case b of
        Undefined \<Rightarrow> Inl (TypeError ''header'')
      | Defined blockInfo \<Rightarrow>
          (let hash = toBase58 (hash (header blockInfo))
           in Inr \<lparr> c_hash = hash, c_blockHash = hash, c_shardId = ''n/a'', c_authorId = ''n/a'' \<rparr>))"

definition transactionRow :: "blockInfo \<Rightarrow> transaction \<Rightarrow> exn + TransactionRow" where
  "transactionRow blockInfo tx =
     (case body tx of
        [] \<Rightarrow> Inl (TypeError ''originator'')
      | (kind, args) # _ \<Rightarrow>
          Inr \<lparr> t_hash = toBase58 (tx_hash tx),
                t_originator = (case map_of args ''originator'' of None \<Rightarrow> Undefined | Some a \<Rightarrow> Defined a),
                t_destination = ''n/a'',
                t_kind = kind,
                t_args = args,
                t_parentHash = None,
                t_chunkHash = toBase58 (hash (header blockInfo)),
                t_status = ''Completed'',
                t_logs = [] \<rparr>)"

text \<open>\<^verbatim>\<open>xs.map(f)\<close> for a callback that may throw: the first exception ends the map.\<close>

fun map_throwing :: "('a \<Rightarrow> exn + 'b) \<Rightarrow> 'a list \<Rightarrow> exn + 'b list" where
  "map_throwing f [] = Inr []"
| "map_throwing f (x # xs) =
     (case f x of
        Inl e \<Rightarrow> Inl e
      | Inr y \<Rightarrow> (case map_throwing f xs of Inl e \<Rightarrow> Inl e | Inr ys \<Rightarrow> Inr (y # ys)))"

text \<open>
  Modelled from the spec: \<^verbatim>\<open>models\<close> (the ORM's tables and its connection) is not part of
  the sources. The store holds the rows of the three tables. A \<^verbatim>\<open>bulkCreate\<close> is a
  statement that either inserts all its rows or rejects; whether it rejects is decided by
  the environment. A managed transaction (\<^verbatim>\<open>sequelize.transaction(callback)\<close>) commits the
  statements of its callback when the callback's promise is fulfilled and rolls them back
  when it rejects; the statements issued in the callback are taken to run inside the
  transaction, which is the reading most favourable to atomicity.
\<close>

record database =
  Blocks :: "BlockRow list"
  Chunks :: "ChunkRow list"
  Transactions :: "TransactionRow list"

datatype statement =
  Block_bulkCreate "BlockRow list"
| Chunk_bulkCreate "ChunkRow list"
| Transaction_bulkCreate "TransactionRow list"

fun execute :: "statement \<Rightarrow> database \<Rightarrow> database" where
  "execute (Block_bulkCreate rows) d = d\<lparr>Blocks := Blocks d @ rows\<rparr>"
| "execute (Chunk_bulkCreate rows) d = d\<lparr>Chunks := Chunks d @ rows\<rparr>"
| "execute (Transaction_bulkCreate rows) d = d\<lparr>Transactions := Transactions d @ rows\<rparr>"

record db_env =
  rejects :: "statement \<Rightarrow> string option"
  commit_rejects :: "string option"

subsection \<open>Persisting a batch: saveBlocks\<close>

text \<open>
  The reason a request is rejected with: \<^verbatim>\<open>null\<close>, an object (of which the code reads
  \<^verbatim>\<open>type\<close> and \<^verbatim>\<open>message\<close>), or a primitive value such as a string. A rejection with
  \<^verbatim>\<open>undefined\<close> is the value \<open>Undefined\<close> of \<open>reason js\<close>.
\<close>

record rpc_error =
  e_type :: "string js"
  e_message :: string

datatype reason = Null | Error_object rpc_error | Primitive string

text \<open>What the program writes to the console.\<close>

datatype log_entry =
  Log_fetch_system int string
| Warn_fetch int reason
| Warn_save exn

text \<open>
  The state the sync engine acts on: the console, the committed rows of the store, and
  the statements that were started but whose promise nobody holds.
\<close>

record world =
  console :: "log_entry list"
  db :: database
  unawaited :: "statement list"

text \<open>
  The last step of the transaction callback: for every block with transactions the map
  callback builds the rows and calls \<^verbatim>\<open>models.Transaction.bulkCreate\<close>, and returns nothing,
  so \<^verbatim>\<open>Promise.all\<close> is given \<^verbatim>\<open>undefined\<close> values and is fulfilled at once. The result
  is the list of statements started and the exception that ended the map, if any.
\<close>

fun start_transaction_inserts :: "blockInfo list \<Rightarrow> statement list \<times> exn option" where
  "start_transaction_inserts [] = ([], None)"
| "start_transaction_inserts (blockInfo # rest) =
     (case map_throwing (transactionRow blockInfo) (transactions blockInfo) of
        Inl e \<Rightarrow> ([], Some e)
      | Inr rows \<Rightarrow>
          (let (started, thrown) = start_transaction_inserts rest
           in (Transaction_bulkCreate rows # started, thrown)))"

definition defined_blocks :: "blockInfo js list \<Rightarrow> blockInfo list" where
  "defined_blocks bs = List.map_filter (\<lambda>b. case b of Defined x \<Rightarrow> Some x | Undefined \<Rightarrow> None) bs"

text \<open>
  The callback given to \<^verbatim>\<open>sequelize.transaction\<close>. Its inner \<^verbatim>\<open>try/catch\<close> catches every
  exception, so its promise is always fulfilled. The result is the store as written by the
  awaited statements, the statements started without being awaited, and the exception the
  inner catch has logged, if any.
\<close>

definition transaction_callback ::
  "db_env \<Rightarrow> blockInfo js list \<Rightarrow> database \<Rightarrow> database \<times> statement list \<times> exn option" where
  "transaction_callback env blocksInfo d =
     (case map_throwing blockRow blocksInfo of
        Inl e \<Rightarrow> (d, [], Some e)
      | Inr block_rows \<Rightarrow>
     (case rejects env (Block_bulkCreate block_rows) of
        Some msg \<Rightarrow> (d, [], Some (DatabaseError msg))
      | None \<Rightarrow>
     (let d1 = execute (Block_bulkCreate block_rows) d in
     (case map_throwing chunkRow blocksInfo of
        Inl e \<Rightarrow> (d1, [], Some e)
      | Inr chunk_rows \<Rightarrow>
     (case rejects env (Chunk_bulkCreate chunk_rows) of
        Some msg \<Rightarrow> (d1, [], Some (DatabaseError msg))
      | None \<Rightarrow>
     (let d2 = execute (Chunk_bulkCreate chunk_rows) d1;
          (started, thrown) =
             start_transaction_inserts
               (filter (\<lambda>blockInfo. length (transactions blockInfo) > 0) (defined_blocks blocksInfo))
      in (d2, started, thrown)))))))"

text \<open>
  \<^verbatim>\<open>saveBlocks\<close>: the managed transaction commits what the callback wrote, because the
  callback's promise is fulfilled; a failing commit is logged by the outer catch and leaves
  the store as it was.
\<close>

definition saveBlocks :: "db_env \<Rightarrow> blockInfo js list \<Rightarrow> world \<Rightarrow> world" where
  "saveBlocks env blocksInfo w =
     (let (d', started, caught) = transaction_callback env blocksInfo (db w);
          w1 = w\<lparr> console := console w @ (case caught of None \<Rightarrow> [] | Some e \<Rightarrow> [Warn_save e]),
                  unawaited := unawaited w @ started \<rparr>
      in case commit_rejects env of
           None \<Rightarrow> w1\<lparr>db := d'\<rparr>
         | Some msg \<Rightarrow> w1\<lparr>console := console w1 @ [Warn_save (DatabaseError msg)]\<rparr>)"

text \<open>
  What happens to the statements nobody awaits: each one that does not reject inserts its
  rows; a rejection is an unhandled one, which the program does not log.
\<close>

fun settle_statements :: "db_env \<Rightarrow> statement list \<Rightarrow> database \<Rightarrow> database" where
  "settle_statements env [] d = d"
| "settle_statements env (st # sts) d =
     settle_statements env sts (case rejects env st of None \<Rightarrow> execute st d | Some _ \<Rightarrow> d)"

definition settle :: "db_env \<Rightarrow> world \<Rightarrow> world" where
  "settle env w = w\<lparr> db := settle_statements env (unawaited w) (db w), unawaited := [] \<rparr>"

subsection \<open>Harvesting a batch of requests: saveBlocksFromRequests\<close>

text \<open>
  The callback of \<^verbatim>\<open>responses.flatMap\<close>: what it logs and the list it returns. For an
  envelope with an error it reads \<^verbatim>\<open>error.type\<close>, which throws a TypeError when the error
  is \<^verbatim>\<open>null\<close> and is \<^verbatim>\<open>undefined\<close> for a primitive value. An envelope for which \<open>isError\<close>
  holds has a defined error.
\<close>

definition harvest_one ::
  "int \<Rightarrow> (blockInfo, reason) Result \<Rightarrow> exn + (log_entry list \<times> blockInfo js list)" where
  "harvest_one blockHeight blockResult =
     (if isError blockResult then
        (case r_error blockResult of
           Defined Null \<Rightarrow> Inl (TypeError ''type'')
         | Defined (Error_object error) \<Rightarrow>
             (if e_type error = Defined ''system''
              then Inr ([Log_fetch_system blockHeight (e_message error)], [])
              else Inr ([Warn_fetch blockHeight (Error_object error)], []))
         | Defined (Primitive v) \<Rightarrow> Inr ([Warn_fetch blockHeight (Primitive v)], [])
         | Undefined \<Rightarrow> Inr ([], []))
      else Inr ([], [r_value blockResult]))"

text \<open>
  \<^verbatim>\<open>responses.flatMap\<close> over the heights and the responses: the lines logged, and the
  blocks collected or the exception that ended the iteration.
\<close>

fun harvest ::
  "(int \<times> (blockInfo, reason) Result) list \<Rightarrow> log_entry list \<times> (exn + blockInfo js list)" where
  "harvest [] = ([], Inr [])"
| "harvest ((blockHeight, blockResult) # rest) =
     (case harvest_one blockHeight blockResult of
        Inl e \<Rightarrow> ([], Inl e)
      | Inr (logs, blocks) \<Rightarrow>
          (let (logs', collected) = harvest rest
           in (logs @ logs',
               case collected of Inl e \<Rightarrow> Inl e | Inr blocks' \<Rightarrow> Inr (blocks @ blocks'))))"

text \<open>
  \<^verbatim>\<open>saveBlocksFromRequests\<close>: the state it leaves and the condition of the promise it
  returns.
\<close>

definition saveBlocksFromRequests ::
  "db_env \<Rightarrow> (int \<times> ((blockInfo, reason) Result, exn) promise) list \<Rightarrow> world
     \<Rightarrow> world \<times> (unit, exn) promise" where
  "saveBlocksFromRequests env requests w =
     (case promise_all (map snd requests) of
        Fulfilled responses \<Rightarrow>
          (let (logs, collected) = harvest (zip (map fst requests) responses);
               w1 = w\<lparr>console := console w @ logs\<rparr>
           in case collected of
                Inl e \<Rightarrow> (w1, Rejected e)
              | Inr blocks \<Rightarrow> (saveBlocks env blocks w1, Fulfilled ()))
      | Rejected e \<Rightarrow> (w, Rejected e)
      | Pending \<Rightarrow> (w, Pending))"

text \<open>
  The envelope a settled request is resolved with, the line \<^verbatim>\<open>saveBlocksFromRequests\<close>
  writes for a height whose request was rejected with the given reason (an object or a
  primitive value; for \<^verbatim>\<open>null\<close> no line is written, see \<open>harvest_one\<close>), and, for a batch
  given as heights with the promises of \<^verbatim>\<open>nearRpc.block\<close>, the blocks that were fetched and
  the lines for the heights that failed.
\<close>

definition envelope :: "(blockInfo js, reason js) promise \<Rightarrow> (blockInfo, reason) Result" where
  "envelope p =
     (case p of
        Fulfilled v \<Rightarrow> \<lparr> r_value = v, r_error = Undefined \<rparr>
      | Rejected e \<Rightarrow> \<lparr> r_value = Undefined, r_error = e \<rparr>
      | Pending \<Rightarrow> new_Result)"

definition fetch_log :: "int \<Rightarrow> reason \<Rightarrow> log_entry" where
  "fetch_log blockHeight error =
     (case error of
        Error_object e \<Rightarrow>
          (if e_type e = Defined ''system'' then Log_fetch_system blockHeight (e_message e)
           else Warn_fetch blockHeight error)
      | _ \<Rightarrow> Warn_fetch blockHeight error)"

definition fetched_blocks :: "(int \<times> (blockInfo js, reason js) promise) list \<Rightarrow> blockInfo js list" where
  "fetched_blocks hps = concat (map (\<lambda>(h, p). case p of Fulfilled v \<Rightarrow> [v] | _ \<Rightarrow> []) hps)"

definition failure_lines :: "(int \<times> (blockInfo js, reason js) promise) list \<Rightarrow> log_entry list" where
  "failure_lines hps =
     concat (map (\<lambda>(h, p). case p of Rejected (Defined error) \<Rightarrow> [fetch_log h error] | _ \<Rightarrow> []) hps)"

subsection \<open>The fetch pipeline: syncNearcoreBlocks\<close>

record sync_config =
  syncFetchQueueSize :: js_num
  syncSaveQueueSize :: js_num
  bulkDbUpdateSize :: js_num

text \<open>
  What a pass meets: the condition of the promise \<^verbatim>\<open>nearRpc.block(h)\<close> returns for each
  height, and the store.
\<close>

record pass_env =
  rpc :: "int \<Rightarrow> (blockInfo js, reason js) promise"
  store :: db_env

text \<open>
  The two arrays of \<^verbatim>\<open>syncNearcoreBlocks\<close>. A request is identified by its height; a save
  is the batch of requests given to \<^verbatim>\<open>saveBlocksFromRequests\<close> with the promise that call
  returned. Both arrays are kept oldest first.
\<close>

record queues =
  requests :: "int list"
  saves :: "(int list \<times> (unit, exn) promise) list"

text \<open>The instants of a pass at which the arrays are observed, and the ways a pass ends.\<close>

datatype instant = After_push | After_detach | After_await | After_flush

datatype pass_end = Completed | Aborted exn | Hangs | Unfinished

text \<open>
  The statements of the loop body. \<^verbatim>\<open>requests.splice(0, n)\<close> removes and returns the first
  elements of the array; the batch is handed to \<^verbatim>\<open>saveBlocksFromRequests\<close>, whose effects
  are taken at the call. \<^verbatim>\<open>await saves.shift()\<close> removes the oldest save and waits for it:
  the pass goes on when the save is fulfilled, throws when it is rejected, and waits for
  ever when it stays pending.
\<close>

definition push_request :: "int \<Rightarrow> queues \<Rightarrow> queues" where
  "push_request syncingBlockHeight q = q\<lparr>requests := requests q @ [syncingBlockHeight]\<rparr>"

definition start_save :: "pass_env \<Rightarrow> int list \<Rightarrow> world \<Rightarrow> world \<times> (unit, exn) promise" where
  "start_save env batch w =
     saveBlocksFromRequests (store env) (map (\<lambda>h. (h, promiseResult (rpc env h))) batch) w"

definition detach_batch :: "sync_config \<Rightarrow> pass_env \<Rightarrow> queues \<Rightarrow> world \<Rightarrow> queues \<times> world" where
  "detach_batch cfg env q w =
     (if js_gt (int (length (requests q))) (syncFetchQueueSize cfg) then
        (let n = delete_count (bulkDbUpdateSize cfg) (length (requests q));
             batch = take n (requests q);
             (w', p) = start_save env batch w
         in (q\<lparr> requests := drop n (requests q), saves := saves q @ [(batch, p)] \<rparr>, w'))
      else (q, w))"

datatype awaited = Proceeds | Throws exn | Waits

definition await_oldest :: "sync_config \<Rightarrow> queues \<Rightarrow> queues \<times> awaited" where
  "await_oldest cfg q =
     (if js_gt (int (length (saves q))) (syncSaveQueueSize cfg) then
        (case saves q of
           [] \<Rightarrow> (q, Proceeds)
         | (batch, p) # rest \<Rightarrow>
             (q\<lparr>saves := rest\<rparr>,
              case p of Fulfilled _ \<Rightarrow> Proceeds | Rejected e \<Rightarrow> Throws e | Pending \<Rightarrow> Waits))
      else (q, Proceeds))"

text \<open>
  The final flush: the requests still in the array are handed to one more save (the array
  keeps them), and all saves are awaited together.
\<close>

definition flush :: "pass_env \<Rightarrow> queues \<Rightarrow> world \<Rightarrow> queues \<times> world \<times> pass_end" where
  "flush env q w =
     (let (w', p) = start_save env (requests q) w;
          q' = q\<lparr>saves := saves q @ [(requests q, p)]\<rparr>
      in (q', w',
          case promise_all (map snd (saves q')) of
            Fulfilled _ \<Rightarrow> Completed
          | Rejected e \<Rightarrow> Aborted e
          | Pending \<Rightarrow> Hangs))"

text \<open>
  The \<^verbatim>\<open>while\<close> loop, run for at most the given number of iterations (the loop need not
  end: a height of \<open>2^54\<close> is its own predecessor in binary64). The result is the arrays
  recorded after every statement that changes them, the state reached, and how the pass
  ended, \<open>Unfinished\<close> when the iterations allowed did not suffice.
\<close>

fun sync_loop ::
  "nat \<Rightarrow> sync_config \<Rightarrow> pass_env \<Rightarrow> int \<Rightarrow> int \<Rightarrow> queues \<Rightarrow> world
     \<Rightarrow> (instant \<times> queues) list \<times> world \<times> pass_end" where
  "sync_loop 0 cfg env bottomBlockHeight syncingBlockHeight q w = ([], w, Unfinished)"
| "sync_loop (Suc n) cfg env bottomBlockHeight syncingBlockHeight q w =
     (if syncingBlockHeight \<ge> bottomBlockHeight then
        (let q1 = push_request syncingBlockHeight q;
             (q2, w2) = detach_batch cfg env q1 w;
             (q3, a) = await_oldest cfg q2
         in case a of
              Proceeds \<Rightarrow>
                (let (trace, w', e) =
                       sync_loop n cfg env bottomBlockHeight (js_sub syncingBlockHeight 1) q3 w2
                 in ((After_push, q1) # (After_detach, q2) # (After_await, q3) # trace, w', e))
            | Throws e \<Rightarrow> ([(After_push, q1), (After_detach, q2)], w2, Aborted e)
            | Waits \<Rightarrow> ([(After_push, q1), (After_detach, q2)], w2, Hangs))
      else
        (let (q', w', e) = flush env q w in ([(After_flush, q')], w', e)))"

definition syncNearcoreBlocks ::
  "nat \<Rightarrow> sync_config \<Rightarrow> pass_env \<Rightarrow> int \<Rightarrow> int \<Rightarrow> world
     \<Rightarrow> (instant \<times> queues) list \<times> world \<times> pass_end" where
  "syncNearcoreBlocks n cfg env topBlockHeight bottomBlockHeight w =
     (if topBlockHeight < bottomBlockHeight then ([], w, Completed)
      else sync_loop n cfg env bottomBlockHeight topBlockHeight \<lparr> requests = [], saves = [] \<rparr> w)"


text \<open>The heights a pass has requested, in the order of the requests.\<close>

definition requested :: "(instant \<times> queues) list \<Rightarrow> int list" where
  "requested trace = map (\<lambda>iq. last (requests (snd iq))) (filter (\<lambda>iq. fst iq = After_push) trace)"



definition no_save_rejected :: "queues \<Rightarrow> bool" where
  "no_save_rejected q = (\<forall>(batch, p) \<in> set (saves q). \<forall>e. p \<noteq> Rejected e)"

definition all_saves_fulfilled :: "queues \<Rightarrow> bool" where
  "all_saves_fulfilled q = (\<forall>(batch, p) \<in> set (saves q). p = Fulfilled ())"

subsection \<open>The gap sync: syncMissingNearcoreState\<close>

text \<open>
  Modelled from the spec: \<^verbatim>\<open>models.Block\<close> is not part of the sources. For the gap sync
  the Block table is the list of the heights of its rows, one entry for each row.
  \<^verbatim>\<open>findOne\<close> ordered by height gives the row with the largest or the smallest height, its
  height read as a JavaScript number, and \<^verbatim>\<open>null\<close> on the empty table; \<^verbatim>\<open>count\<close> with
  \<^verbatim>\<open>between\<close> counts the rows whose height lies in the closed range.
\<close>

definition findOne_height_desc :: "int list \<Rightarrow> int option" where
  "findOne_height_desc rows = (if rows = [] then None else Some (js_int (Max (set rows))))"

definition findOne_height_asc :: "int list \<Rightarrow> int option" where
  "findOne_height_asc rows = (if rows = [] then None else Some (js_int (Min (set rows))))"

definition count_between :: "int list \<Rightarrow> int \<Rightarrow> int \<Rightarrow> nat" where
  "count_between rows lowHeight highHeight =
     length (filter (\<lambda>h. lowHeight \<le> h \<and> h \<le> highHeight) rows)"

text \<open>
  The recursive \<^verbatim>\<open>syncMissingNearcoreBlocks\<close>. The parameter \<open>pipeline\<close> is what a call
  \<^verbatim>\<open>syncNearcoreBlocks(highHeight, lowHeight)\<close> does to the stored heights, which depends on
  the answers of the node and of the store; it is \<open>None\<close> when that call throws or does not
  return. The recursion is not bounded by the code itself, so the function is partial:
  \<open>None\<close> stands for a call that does not return.
\<close>

partial_function (option) syncMissingNearcoreBlocks ::
  "(int \<Rightarrow> int \<Rightarrow> int list \<Rightarrow> int list option) \<Rightarrow> js_num \<Rightarrow> int \<Rightarrow> int \<Rightarrow> int list
     \<Rightarrow> int list option" where
  "syncMissingNearcoreBlocks pipeline fetchQueueSize lowHeight highHeight rows =
     (if lowHeight > highHeight then Some rows
      else
        (let syncedBlocksCount = count_between rows lowHeight highHeight in
         if js_add (js_sub highHeight lowHeight) 1 = int syncedBlocksCount then Some rows
         else if js_le (js_sub highHeight lowHeight) fetchQueueSize \<and> syncedBlocksCount = 0
           then pipeline highHeight lowHeight rows
         else
           (let midHeight = js_add lowHeight highHeight div 2 in
            Option.bind (syncMissingNearcoreBlocks pipeline fetchQueueSize lowHeight midHeight rows)
              (\<lambda>rows1. syncMissingNearcoreBlocks pipeline fetchQueueSize
                          (js_add midHeight 1) highHeight rows1))))"

declare syncMissingNearcoreBlocks.simps [code]

text \<open>
  The same function, returning also the depth of its recursion: 0 for a call that returns
  without calling itself, and one more than the deeper of its two calls otherwise.
\<close>

partial_function (option) syncMissingNearcoreBlocks_depth ::
  "(int \<Rightarrow> int \<Rightarrow> int list \<Rightarrow> int list option) \<Rightarrow> js_num \<Rightarrow> int \<Rightarrow> int \<Rightarrow> int list
     \<Rightarrow> (int list \<times> nat) option" where
  "syncMissingNearcoreBlocks_depth pipeline fetchQueueSize lowHeight highHeight rows =
     (if lowHeight > highHeight then Some (rows, 0)
      else
        (let syncedBlocksCount = count_between rows lowHeight highHeight in
         if js_add (js_sub highHeight lowHeight) 1 = int syncedBlocksCount then Some (rows, 0)
         else if js_le (js_sub highHeight lowHeight) fetchQueueSize \<and> syncedBlocksCount = 0
           then map_option (\<lambda>rows'. (rows', 0)) (pipeline highHeight lowHeight rows)
         else
           (let midHeight = js_add lowHeight highHeight div 2 in
            Option.bind (syncMissingNearcoreBlocks_depth pipeline fetchQueueSize lowHeight midHeight rows)
              (\<lambda>r1. Option.bind
                 (syncMissingNearcoreBlocks_depth pipeline fetchQueueSize
                    (js_add midHeight 1) highHeight (fst r1))
                 (\<lambda>r2. Some (fst r2, 1 + max (snd r1) (snd r2)))))))"

declare syncMissingNearcoreBlocks_depth.simps [code]

text \<open>The guards under which a call reaches its two recursive calls.\<close>

definition recurses :: "js_num \<Rightarrow> int \<Rightarrow> int \<Rightarrow> int list \<Rightarrow> bool" where
  "recurses fetchQueueSize lowHeight highHeight rows =
     (\<not> lowHeight > highHeight
      \<and> js_add (js_sub highHeight lowHeight) 1 \<noteq> int (count_between rows lowHeight highHeight)
      \<and> \<not> (js_le (js_sub highHeight lowHeight) fetchQueueSize
           \<and> count_between rows lowHeight highHeight = 0))"

text \<open>
  \<^verbatim>\<open>syncMissingNearcoreState\<close>: the range it hands to the recursion, if the table has rows,
  and the pass itself.
\<close>

definition gap_range :: "int list \<Rightarrow> (int \<times> int) option" where
  "gap_range rows =
     (case findOne_height_desc rows of
        None \<Rightarrow> None
      | Some latestSyncedBlock_height \<Rightarrow>
          (case findOne_height_asc rows of
             None \<Rightarrow> None
           | Some oldestSyncedBlock_height \<Rightarrow>
               Some (js_add oldestSyncedBlock_height 1, js_sub latestSyncedBlock_height 1)))"

definition syncMissingNearcoreState ::
  "(int \<Rightarrow> int \<Rightarrow> int list \<Rightarrow> int list option) \<Rightarrow> js_num \<Rightarrow> int list \<Rightarrow> int list option" where
  "syncMissingNearcoreState pipeline fetchQueueSize rows =
     (case gap_range rows of
        None \<Rightarrow> Some rows
      | Some (lowHeight, highHeight) \<Rightarrow>
          syncMissingNearcoreBlocks pipeline fetchQueueSize lowHeight highHeight rows)"

subsection \<open>The HTTP telemetry endpoint\<close>















subsection \<open>Sample inputs\<close>

definition sample_block :: blockInfo where
  "sample_block =
     \<lparr> header = \<lparr> hash = ''H5'', height = 5, prev_hash = ''H4'',
                    timestamp = 1573000000000000000, total_weight_num = 5 \<rparr>,
       transactions = [\<lparr> tx_hash = ''T1'', body = [(''SendMoney'', [(''originator'', ''alice'')])] \<rparr>] \<rparr>"

definition empty_world :: world where
  "empty_world = \<lparr> console = [], db = \<lparr> Blocks = [], Chunks = [], Transactions = [] \<rparr>, unawaited = [] \<rparr>"

definition all_succeed :: db_env where
  "all_succeed = \<lparr> rejects = (\<lambda>st. None), commit_rejects = None \<rparr>"

definition chunk_insert_fails :: db_env where
  "chunk_insert_fails =
     \<lparr> rejects = (\<lambda>st. case st of Chunk_bulkCreate rows \<Rightarrow> Some ''constraint'' | _ \<Rightarrow> None),
       commit_rejects = None \<rparr>"

definition transaction_insert_fails :: db_env where
  "transaction_insert_fails =
     \<lparr> rejects = (\<lambda>st. case st of Transaction_bulkCreate rows \<Rightarrow> Some ''constraint'' | _ \<Rightarrow> None),
       commit_rejects = None \<rparr>"

text \<open>A pipeline that fetches and stores every height of its range, highest first.\<close>

definition all_fetched :: "int \<Rightarrow> int \<Rightarrow> int list \<Rightarrow> int list option" where
  "all_fetched highHeight lowHeight rows = Some (rows @ rev [lowHeight..highHeight])"


definition eager_config :: sync_config where
  "eager_config =
     \<lparr> syncFetchQueueSize = Finite 0, syncSaveQueueSize = Finite 0, bulkDbUpdateSize = Finite 1 \<rparr>"


definition null_at_3 :: pass_env where
  "null_at_3 =
     \<lparr> rpc = (\<lambda>h. if h = 3 then Rejected (Defined Null) else Fulfilled (Defined sample_block)),
       store = all_succeed \<rparr>"

definition node_down :: pass_env where
  "node_down =
     \<lparr> rpc = (\<lambda>h. Rejected (Defined (Error_object \<lparr> e_type = Defined ''system'', e_message = ''timeout'' \<rparr>))),
       store = all_succeed \<rparr>"




section \<open>Theorems\<close>

subsection \<open>C10: the telemetry row\<close>

text \<open>
  C10. For every telemetry report, the row upserted under the report's \<open>node_id\<close> has its
  moniker column equal to the report's \<open>account_id\<close> (as is the accountId column), while
  \<open>node_id\<close>, \<open>ip_address\<close> and \<open>latest_block_height\<close> are stored in their own columns.
\<close>

theorem node_telemetry_moniker_is_account_id:
  "\<exists>row. node_telemetry now info tbl (node_id info) = Some row
     \<and> moniker row = account_id info
     \<and> accountId row = account_id info
     \<and> nodeId row = node_id info
     \<and> ipAddress row = ip_address info
     \<and> lastHeight row = latest_block_height info
     \<and> lastSeen row = now"
  by (simp add: node_telemetry_def node_telemetry_row_def Node_upsert_def)

subsection \<open>C4: the stored timestamp\<close>

lemma down_shift_ge: "0 < a \<Longrightarrow> b \<le> a * 2 ^ down_shift a b s"
proof (induction a b s rule: down_shift.induct)
  case (1 a b s)
  show ?case
  proof (cases "b \<le> a * 2 ^ s")
    case True
    then show ?thesis by (subst down_shift.simps) simp
  next
    case False
    with 1 show ?thesis by (subst down_shift.simps) simp
  qed
qed

lemma round_half_even_1: "round_half_even a (Suc 0) = a"
  by (simp add: round_half_even_def)

lemma div_add_small:
  fixes q P x :: nat
  assumes "x < P"
  shows "(q * P + x) div P = q"
  using assms by simp

lemma js_number_exact: "n < 2 ^ 53 \<Longrightarrow> js_number n = n"
  by (simp add: js_number_def double_div_floor_def round_half_even_1 Let_def)

lemma round_half_even_cases:
  "round_half_even a b = a div b \<or> (round_half_even a b = a div b + 1 \<and> b \<le> 2 * (a mod b))"
  by (auto simp add: round_half_even_def Let_def)

lemma round_scaled_floor:
  fixes a P :: nat
  assumes P: "1000000 < 2 * P"
  shows "round_half_even (a * P) 1000000 div P = a div 1000000"
proof -
  define q where "q = a div 1000000"
  define r where "r = a mod 1000000"
  define X where "X = r * P"
  define u where "u = X div 1000000"
  define v where "v = X mod 1000000"
  have a: "a = q * 1000000 + r" and r: "r < 1000000" by (simp_all add: q_def r_def)
  have X: "X = u * 1000000 + v" and v: "v < 1000000" by (simp_all add: u_def v_def)
  have "r * P \<le> 999999 * P" using r by (intro mult_le_mono1) simp
  then have XP: "X \<le> 999999 * P" by (simp add: X_def)
  have aP: "a * P = (q * P) * 1000000 + X" by (simp add: a X_def algebra_simps)
  have d: "(a * P) div 1000000 = q * P + u" by (simp add: aP u_def)
  have m: "(a * P) mod 1000000 = v" by (simp add: aP v_def)
  have uP: "u < P" using X XP P by arith
  have uP1: "1000000 \<le> 2 * v \<Longrightarrow> u + 1 < P" using X XP P v by arith
  from round_half_even_cases [of "a * P" 1000000]
  have "round_half_even (a * P) 1000000 = q * P + u
      \<or> (round_half_even (a * P) 1000000 = q * P + (u + 1) \<and> 1000000 \<le> 2 * v)"
    by (simp add: d m)
  then obtain x where x: "round_half_even (a * P) 1000000 = q * P + x" "x < P"
    using uP uP1 by blast
  show ?thesis
    unfolding x(1) q_def [symmetric] by (rule div_add_small [OF x(2)])
qed

lemma timestamp_ms_exact:
  assumes "ts < 2 ^ 53"
  shows "timestamp_ms ts = ts div 1000000"
proof (cases "ts = 0")
  case True
  then show ?thesis by (simp add: timestamp_ms_def js_number_def double_div_floor_def)
next
  case False
  define s where "s = down_shift ts (2 ^ 52 * 1000000) 0"
  have pos: "0 < ts" using False by simp
  have "\<not> s \<le> 18"
  proof
    assume "s \<le> 18"
    have "2 ^ 52 * 1000000 \<le> ts * 2 ^ s" unfolding s_def by (rule down_shift_ge [OF pos])
    also have "\<dots> \<le> ts * 2 ^ 18"
      using \<open>s \<le> 18\<close> by (intro mult_le_mono2 power_increasing) simp_all
    also have "\<dots> < 2 ^ 53 * 2 ^ 18"
      using assms by (intro mult_strict_right_mono) simp_all
    also have "\<dots> \<le> 2 ^ 52 * 1000000" by simp
    finally show False by simp
  qed
  then have "19 \<le> s" by simp
  then have "(2::nat) ^ 19 \<le> 2 ^ s" by (intro power_increasing) simp_all
  then have P: "1000000 < 2 * (2::nat) ^ s" by simp
  have "timestamp_ms ts = round_half_even (ts * 2 ^ s) 1000000 div 2 ^ s"
    using assms False
    by (simp add: timestamp_ms_def js_number_exact double_div_floor_def Let_def s_def)
  then show ?thesis by (simp add: round_scaled_floor [OF P])
qed

lemma up_shift_le: "0 < b \<Longrightarrow> k \<le> j \<Longrightarrow> a < b * 2 ^ j \<Longrightarrow> up_shift a b k \<le> j"
proof (induction a b k rule: up_shift.induct)
  case (1 a b k)
  show ?case
  proof (cases "a < b * 2 ^ k")
    case True
    then have "up_shift a b k = k" by (subst up_shift.simps) simp
    with "1.prems" show ?thesis by simp
  next
    case False
    then have e: "up_shift a b k = up_shift a b (k + 1)"
      using "1.prems"(1) by (subst up_shift.simps) simp
    from False "1.prems"(3) have "k \<noteq> j" by auto
    with "1.prems"(2) have "k + 1 \<le> j" by simp
    with "1.IH" False "1.prems" e show ?thesis by simp
  qed
qed

lemma round_half_even_near:
  assumes "0 < b"
  shows "2 * (round_half_even a b * b) \<le> 2 * a + b" and "2 * a \<le> 2 * (round_half_even a b * b) + b"
proof -
  define q where "q = a div b"
  define r where "r = a mod b"
  have a: "a = q * b + r" and r: "r < b" using assms by (simp_all add: q_def r_def)
  have c: "round_half_even a b = q \<and> 2 * r \<le> b \<or> round_half_even a b = q + 1 \<and> b \<le> 2 * r"
    by (auto simp add: round_half_even_def Let_def q_def r_def)
  show "2 * (round_half_even a b * b) \<le> 2 * a + b"
    using c a r by (auto simp add: algebra_simps)
  show "2 * a \<le> 2 * (round_half_even a b * b) + b"
    using c a r by (auto simp add: algebra_simps)
qed

lemma round_half_even_ge: "a div b \<le> round_half_even a b"
  by (simp add: round_half_even_def Let_def)

lemma js_number_near:
  assumes "ts < 2 ^ 64"
  shows "js_number ts \<le> ts + 1024" and "ts \<le> js_number ts + 1024"
proof -
  have "js_number ts \<le> ts + 1024 \<and> ts \<le> js_number ts + 1024"
  proof (cases "ts < 2 ^ 53")
    case True
    then show ?thesis by (simp add: js_number_exact)
  next
    case False
    define k where "k = up_shift ts (2 ^ 53 * 1) 0"
    have "k \<le> 11" unfolding k_def using assms by (intro up_shift_le) simp_all
    then have "(2::nat) ^ k \<le> 2 ^ 11" by (intro power_increasing) simp_all
    then have P: "(2::nat) ^ k \<le> 2048" by simp
    have e: "js_number ts = round_half_even ts (2 ^ k) * 2 ^ k"
      using False by (simp add: js_number_def double_div_floor_def Let_def k_def)
    from round_half_even_near [of "2 ^ k" ts] P e show ?thesis by simp
  qed
  then show "js_number ts \<le> ts + 1024" and "ts \<le> js_number ts + 1024" by simp_all
qed

lemma double_div_floor_near:
  assumes "d < 2 ^ 65"
  shows "d div 1000000 \<le> double_div_floor d 1000000"
    and "double_div_floor d 1000000 * 1000000 \<le> d + 3907"
proof -
  have "d div 1000000 \<le> double_div_floor d 1000000
      \<and> double_div_floor d 1000000 * 1000000 \<le> d + 3907"
  proof (cases "d = 0")
    case True
    then show ?thesis by (simp add: double_div_floor_def)
  next
    case False
    then have pos: "0 < d" by simp
    define s where "s = down_shift d (2 ^ 52 * 1000000) 0"
    define P :: nat where "P = 2 ^ s"
    define m where "m = round_half_even (d * P) 1000000"
    have "\<not> s \<le> 6"
    proof
      assume "s \<le> 6"
      have "2 ^ 52 * 1000000 \<le> d * 2 ^ s" unfolding s_def by (rule down_shift_ge [OF pos])
      also have "\<dots> \<le> d * 2 ^ 6"
        using \<open>s \<le> 6\<close> by (intro mult_le_mono2 power_increasing) simp_all
      also have "\<dots> < 2 ^ 65 * 2 ^ 6"
        using assms by (intro mult_strict_right_mono) simp_all
      also have "\<dots> \<le> 2 ^ 52 * 1000000" by simp
      finally show False by simp
    qed
    then have "7 \<le> s" by simp
    then have "(2::nat) ^ 7 \<le> 2 ^ s" by (intro power_increasing) simp_all
    then have P: "128 \<le> P" by (simp add: P_def)
    have e: "double_div_floor d 1000000 = m div P"
      using assms False by (simp add: double_div_floor_def Let_def s_def P_def m_def)
    have lo1: "(d div 1000000) * P \<le> (d * P) div 1000000"
    proof -
      have "(d div 1000000) * 1000000 \<le> d" by simp
      then have "(d div 1000000) * 1000000 * P \<le> d * P" by (rule mult_le_mono1)
      then have "((d div 1000000) * P) * 1000000 \<le> d * P" by (simp add: algebra_simps)
      then show ?thesis by (simp add: less_eq_div_iff_mult_less_eq)
    qed
    have "(d div 1000000) * P \<le> m"
      using lo1 round_half_even_ge [of "d * P" 1000000] by (simp add: m_def)
    then have lower: "d div 1000000 \<le> m div P"
      using P by (simp add: less_eq_div_iff_mult_less_eq)
    have mP: "(m div P) * P \<le> m" by simp
    have "2 * (m * 1000000) \<le> 2 * (d * P) + 1000000"
      using round_half_even_near(1) [of 1000000 "d * P"] by (simp add: m_def)
    moreover have "2 * ((m div P) * P * 1000000) \<le> 2 * (m * 1000000)"
      using mP by simp
    moreover have "(1000000::nat) \<le> 7813 * P" using P by simp
    ultimately have "2 * ((m div P) * P * 1000000) \<le> 2 * (d * P) + 7813 * P" by linarith
    then have "(2 * ((m div P) * 1000000)) * P \<le> (2 * d + 7813) * P"
      by (simp add: algebra_simps)
    then have "2 * ((m div P) * 1000000) \<le> 2 * d + 7813" using P by simp
    then have upper: "(m div P) * 1000000 \<le> d + 3907" by simp
    show ?thesis using lower upper e by simp
  qed
  then show "d div 1000000 \<le> double_div_floor d 1000000"
    and "double_div_floor d 1000000 * 1000000 \<le> d + 3907" by simp_all
qed

lemma timestamp_ms_near:
  assumes "ts < 2 ^ 64"
  shows "timestamp_ms ts \<le> ts div 1000000 + 1" and "ts div 1000000 \<le> timestamp_ms ts + 1"
proof -
  define d where "d = js_number ts"
  have d1: "d \<le> ts + 1024" and d2: "ts \<le> d + 1024"
    using js_number_near [OF assms] by (simp_all add: d_def)
  have "d < 2 ^ 65" using d1 assms by simp
  from double_div_floor_near [OF this]
  have lo: "d div 1000000 \<le> timestamp_ms ts"
    and up: "timestamp_ms ts * 1000000 \<le> d + 3907"
    by (simp_all add: timestamp_ms_def d_def)
  from up d1 have "timestamp_ms ts * 1000000 \<le> ts + 1000000" by simp
  then have "timestamp_ms ts \<le> (ts + 1000000) div 1000000"
    by (simp add: less_eq_div_iff_mult_less_eq)
  then show "timestamp_ms ts \<le> ts div 1000000 + 1" by simp
  from d2 have "ts div 1000000 \<le> (d + 1000000) div 1000000" by (intro div_le_mono) simp
  also have "\<dots> = d div 1000000 + 1" by simp
  finally show "ts div 1000000 \<le> timestamp_ms ts + 1" using lo by simp
qed

lemma late_timestamp: "timestamp_ms 1573000000000999936 = 1573000000001"
  by (simp add: timestamp_ms_def js_number_def double_div_floor_def round_half_even_def Let_def
      down_shift.simps up_shift.simps)

text \<open>
  C4 as stated: for every nanosecond timestamp below \<open>2^64\<close> the stored value is the
  timestamp divided by 1000000 and truncated. The division is the division of
  JavaScript numbers: for 1573000000000999936 ns, a binary64 value, the quotient
  1573000000000.999936 is rounded to the binary64 value 1573000000001, which is stored,
  while the truncated quotient is 1573000000000.
\<close>

theorem stored_timestamp_counterexample:
  "\<not> (\<forall>ts. ts < 2 ^ 64 \<longrightarrow> timestamp_ms ts = ts div 1000000)"
proof
  assume "\<forall>ts. ts < 2 ^ 64 \<longrightarrow> timestamp_ms ts = ts div 1000000"
  then have "timestamp_ms 1573000000000999936 = 1573000000000999936 div 1000000"
    by simp
  then show False by (simp add: late_timestamp)
qed

text \<open>
  C4, amended. For every block whose header timestamp is below \<open>2^64\<close> nanoseconds, the
  timestamp of the Block row built for it differs by at most one from the header
  timestamp divided by 1000000 and truncated, and equals it when the header timestamp is
  below \<open>2^53\<close>.
\<close>

theorem stored_timestamp_near:
  assumes "timestamp (header blockInfo) < 2 ^ 64"
  shows "\<exists>row. blockRow (Defined blockInfo) = Inr row
           \<and> b_timestamp row \<le> timestamp (header blockInfo) div 1000000 + 1
           \<and> timestamp (header blockInfo) div 1000000 \<le> b_timestamp row + 1
           \<and> (timestamp (header blockInfo) < 2 ^ 53 \<longrightarrow>
                 b_timestamp row = timestamp (header blockInfo) div 1000000)"
  using timestamp_ms_near [OF assms] timestamp_ms_exact [of "timestamp (header blockInfo)"]
  by (simp add: blockRow_def)

theorem stored_timestamp_near_witness:
  "timestamp (header (sample_block\<lparr>header := (header sample_block)\<lparr>timestamp := 1999999\<rparr>\<rparr>)) < 2 ^ 64
   \<and> timestamp (header (sample_block\<lparr>header := (header sample_block)\<lparr>timestamp := 1999999\<rparr>\<rparr>)) < 2 ^ 53
   \<and> (\<exists>row. blockRow (Defined (sample_block\<lparr>header := (header sample_block)\<lparr>timestamp := 1999999\<rparr>\<rparr>)) = Inr row
          \<and> b_timestamp row = 1)"
proof -
  let ?b = "sample_block\<lparr>header := (header sample_block)\<lparr>timestamp := 1999999\<rparr>\<rparr>"
  have h: "timestamp (header ?b) < 2 ^ 64" by simp
  have h': "timestamp (header ?b) < 2 ^ 53" by simp
  from stored_timestamp_near [OF h] h'
  have "\<exists>row. blockRow (Defined ?b) = Inr row \<and> b_timestamp row = 1" by auto
  with h h' show ?thesis by blast
qed

subsection \<open>C7: the Result envelope of a promise\<close>

lemma promiseResult_Fulfilled:
  "promiseResult (Fulfilled v) = Fulfilled \<lparr> r_value = v, r_error = Undefined \<rparr>"
  by (simp add: promiseResult_def new_Result_def)

lemma promiseResult_Rejected:
  "promiseResult (Rejected e) = Fulfilled \<lparr> r_value = Undefined, r_error = e \<rparr>"
  by (simp add: promiseResult_def new_Result_def)

lemma promiseResult_Pending: "promiseResult Pending = Pending"
  by (simp add: promiseResult_def new_Result_def)

text \<open>
  C7 as stated: for every promise \<open>p\<close> the envelope's \<open>isError\<close> is true exactly when \<open>p\<close>
  rejected. It fails for a promise rejected with the reason \<^verbatim>\<open>undefined\<close>: the envelope's
  error field stays \<^verbatim>\<open>undefined\<close> and \<open>isError\<close> is false.
\<close>

theorem promiseResult_isError_counterexample:
  "\<not> (\<forall>p :: (nat js, string js) promise.
        \<exists>r. (promiseResult p :: ((nat, string) Result, unit) promise) = Fulfilled r
           \<and> (isError r \<longleftrightarrow> (\<exists>e. p = Rejected e)))"
proof
  assume "\<forall>p :: (nat js, string js) promise.
        \<exists>r. (promiseResult p :: ((nat, string) Result, unit) promise) = Fulfilled r
           \<and> (isError r \<longleftrightarrow> (\<exists>e. p = Rejected e))"
  then obtain r where
    "(promiseResult (Rejected Undefined :: (nat js, string js) promise)
        :: ((nat, string) Result, unit) promise) = Fulfilled r"
    and "isError r"
    by blast
  then show False
    by (auto simp add: promiseResult_Rejected isError_def)
qed

text \<open>
  C7, amended. \<open>promiseResult p\<close> never rejects, and once \<open>p\<close> has settled it is resolved
  with an envelope whose \<open>isError\<close> is true exactly when \<open>p\<close> rejected with a reason other
  than \<^verbatim>\<open>undefined\<close>; when \<open>p\<close> is fulfilled with \<open>v\<close> the envelope carries \<open>v\<close> as its
  value and no error. While \<open>p\<close> is pending, so is the result.
\<close>

theorem promiseResult_envelope:
  "(\<forall>x. promiseResult p \<noteq> Rejected x)
   \<and> (p \<noteq> Pending \<longrightarrow>
        (\<exists>r. promiseResult p = Fulfilled r
            \<and> (isError r \<longleftrightarrow> (\<exists>e. p = Rejected (Defined e)))
            \<and> (\<forall>v. p = Fulfilled v \<longrightarrow> r_value r = v \<and> r_error r = Undefined)))
   \<and> (p = Pending \<longrightarrow> promiseResult p = Pending)"
proof (cases p)
  case (Fulfilled v)
  then show ?thesis by (simp add: promiseResult_Fulfilled isError_def)
next
  case (Rejected e)
  then show ?thesis by (cases e) (simp_all add: promiseResult_Rejected isError_def)
next
  case Pending
  then show ?thesis by (simp add: promiseResult_Pending)
qed

theorem promiseResult_envelope_witness:
  "(\<exists>r. (promiseResult (Rejected (Defined ''timeout'') :: (nat js, string js) promise)
            :: ((nat, string) Result, unit) promise) = Fulfilled r \<and> isError r)
   \<and> (\<exists>r. (promiseResult (Fulfilled (Defined 7) :: (nat js, string js) promise)
            :: ((nat, string) Result, unit) promise) = Fulfilled r
          \<and> \<not> isError r \<and> r_value r = Defined 7)"
proof -
  have a: "(Rejected (Defined ''timeout'') :: (nat js, string js) promise) \<noteq> Pending" by simp
  have b: "(Fulfilled (Defined 7) :: (nat js, string js) promise) \<noteq> Pending" by simp
  from promiseResult_envelope [of "Rejected (Defined ''timeout'') :: (nat js, string js) promise"] a
  have 1: "\<exists>r. (promiseResult (Rejected (Defined ''timeout'') :: (nat js, string js) promise)
            :: ((nat, string) Result, unit) promise) = Fulfilled r \<and> isError r"
    by blast
  from promiseResult_envelope [of "Fulfilled (Defined 7) :: (nat js, string js) promise"] b
  have 2: "\<exists>r. (promiseResult (Fulfilled (Defined 7) :: (nat js, string js) promise)
            :: ((nat, string) Result, unit) promise) = Fulfilled r
          \<and> \<not> isError r \<and> r_value r = Defined 7"
    by auto
  from 1 2 show ?thesis by blast
qed

subsection \<open>C1: the bounds on the two queues\<close>



lemma detach_batch_queues:
  "fst (detach_batch cfg env q w) =
     (if js_gt (int (length (requests q))) (syncFetchQueueSize cfg) then
        q\<lparr> requests := drop (delete_count (bulkDbUpdateSize cfg) (length (requests q))) (requests q),
           saves := saves q @
             [(take (delete_count (bulkDbUpdateSize cfg) (length (requests q))) (requests q),
               snd (start_save env
                 (take (delete_count (bulkDbUpdateSize cfg) (length (requests q))) (requests q)) w))] \<rparr>
      else q)"
  by (simp add: detach_batch_def Let_def split_beta)

lemma await_oldest_queues:
  "fst (await_oldest cfg q) =
     (if js_gt (int (length (saves q))) (syncSaveQueueSize cfg) then q\<lparr>saves := tl (saves q)\<rparr> else q)"
  by (cases "saves q") (auto simp add: await_oldest_def split: prod.splits)



lemma sync_loop_Suc_trace:
  "fst (sync_loop (Suc n) cfg env bottom h q w) =
     (if h \<ge> bottom then
        (let q1 = push_request h q;
             q2 = fst (detach_batch cfg env q1 w);
             w2 = snd (detach_batch cfg env q1 w);
             q3 = fst (await_oldest cfg q2)
         in case snd (await_oldest cfg q2) of
              Proceeds \<Rightarrow>
                (After_push, q1) # (After_detach, q2) # (After_await, q3)
                  # fst (sync_loop n cfg env bottom (js_sub h 1) q3 w2)
            | Throws e \<Rightarrow> [(After_push, q1), (After_detach, q2)]
            | Waits \<Rightarrow> [(After_push, q1), (After_detach, q2)])
      else [(After_flush, fst (flush env q w))])"
  by (simp add: Let_def split_beta split: awaited.splits)








subsection \<open>C5: failed fetches are dropped, fetched blocks are persisted\<close>

lemma promiseResult_settled: "p \<noteq> Pending \<Longrightarrow> promiseResult p = Fulfilled (envelope p)"
  by (cases p) (simp_all add: promiseResult_Fulfilled promiseResult_Rejected envelope_def)

lemma promiseResult_not_Rejected: "promiseResult p \<noteq> Rejected e"
  by (cases p) (simp_all add: promiseResult_Fulfilled promiseResult_Rejected promiseResult_Pending)

lemma promise_all_Fulfilled: "promise_all (map Fulfilled rs) = Fulfilled rs"
  by (induction rs) simp_all

lemma promise_all_settled:
  assumes "\<forall>(h, p) \<in> set hps. p \<noteq> Pending"
  shows "promise_all (map (\<lambda>(h, p). promiseResult p) hps :: ((blockInfo, reason) Result, exn) promise list)
     = Fulfilled (map (\<lambda>(h, p). envelope p) hps)"
proof -
  have "(map (\<lambda>(h, p). promiseResult p) hps :: ((blockInfo, reason) Result, exn) promise list)
      = map Fulfilled (map (\<lambda>(h, p). envelope p) hps)"
    using assms by (induction hps) (auto simp add: promiseResult_settled)
  then show ?thesis by (simp only: promise_all_Fulfilled)
qed

lemma promise_all_not_Rejected:
  assumes "\<forall>p \<in> set ps. \<forall>e. p \<noteq> Rejected e"
  shows "promise_all ps \<noteq> Rejected e"
  using assms by (induction ps rule: promise_all.induct) (auto split: promise.splits)

lemma promise_all_elements:
  "promise_all ps = Fulfilled rs \<Longrightarrow> ps = map Fulfilled rs"
  by (induction ps arbitrary: rs rule: promise_all.induct) (auto split: promise.splits)

lemma harvest_settled:
  assumes "\<forall>(h, p) \<in> set hps. p \<noteq> Rejected (Defined Null)"
  shows "harvest (map (\<lambda>(h, p). (h, envelope p)) hps) =
     (failure_lines hps,
      Inr (concat (map (\<lambda>(h, p). case p of Rejected (Defined error) \<Rightarrow> [] | _ \<Rightarrow> [r_value (envelope p)]) hps)))"
  using assms
proof (induction hps)
  case Nil
  show ?case by (simp add: failure_lines_def)
next
  case (Cons hp hps)
  obtain h p where hp: "hp = (h, p)" by (cases hp)
  from Cons.prems have rest: "\<forall>(h, p) \<in> set hps. p \<noteq> Rejected (Defined Null)" by simp
  from Cons.prems hp have nn: "p \<noteq> Rejected (Defined Null)" by simp
  note IH = Cons.IH [OF rest]
  show ?case
  proof (cases p)
    case (Fulfilled v)
    then show ?thesis
      using IH by (simp add: hp harvest_one_def isError_def envelope_def failure_lines_def)
  next
    case Pending
    then show ?thesis
      using IH by (simp add: hp harvest_one_def isError_def envelope_def failure_lines_def new_Result_def)
  next
    case (Rejected e)
    show ?thesis
    proof (cases e)
      case Undefined
      then show ?thesis
        using IH Rejected by (simp add: hp harvest_one_def isError_def envelope_def failure_lines_def)
    next
      case (Defined r)
      with nn Rejected have "r \<noteq> Null" by simp
      then show ?thesis
        using IH Rejected Defined
        by (cases r) (simp_all add: hp harvest_one_def isError_def envelope_def failure_lines_def fetch_log_def)
    qed
  qed
qed

lemma saveBlocksFromRequests_settled:
  assumes "\<forall>(h, p) \<in> set hps. p \<noteq> Pending \<and> p \<noteq> Rejected (Defined Null)"
  shows "saveBlocksFromRequests env (map (\<lambda>(h, p). (h, promiseResult p)) hps) w =
     (saveBlocks env
        (concat (map (\<lambda>(h, p). case p of Rejected (Defined error) \<Rightarrow> [] | _ \<Rightarrow> [r_value (envelope p)]) hps))
        (w\<lparr>console := console w @ failure_lines hps\<rparr>),
      Fulfilled ())"
proof -
  from assms have a: "\<forall>(h, p) \<in> set hps. p \<noteq> Pending" and b: "\<forall>(h, p) \<in> set hps. p \<noteq> Rejected (Defined Null)"
    by auto
  have 1: "map snd (map (\<lambda>(h, p). (h, promiseResult p)) hps) = map (\<lambda>(h, p). promiseResult p) hps"
    by (induction hps) auto
  have 2: "zip (map fst (map (\<lambda>(h, p). (h, promiseResult p)) hps)) (map (\<lambda>(h, p). envelope p) hps)
      = map (\<lambda>(h, p). (h, envelope p)) hps"
    by (induction hps) auto
  show ?thesis
    unfolding saveBlocksFromRequests_def 1 promise_all_settled [OF a] promise.case 2
      harvest_settled [OF b]
    by simp
qed

lemma start_save_not_Rejected:
  assumes "\<forall>h. rpc env h \<noteq> Rejected (Defined Null)"
  shows "snd (start_save env batch w) \<noteq> Rejected e"
proof (cases "\<forall>h \<in> set batch. rpc env h \<noteq> Pending")
  case True
  define hps where "hps = map (\<lambda>h. (h, rpc env h)) batch"
  have m: "map (\<lambda>h. (h, promiseResult (rpc env h))) batch = map (\<lambda>(h, p). (h, promiseResult p)) hps"
    by (simp add: hps_def)
  have "\<forall>(h, p) \<in> set hps. p \<noteq> Pending \<and> p \<noteq> Rejected (Defined Null)"
    using True assms by (auto simp add: hps_def)
  then show ?thesis
    unfolding start_save_def m by (simp add: saveBlocksFromRequests_settled)
next
  case False
  then obtain h where h: "h \<in> set batch" "rpc env h = Pending" by blast
  have "promise_all (map (\<lambda>h. (promiseResult (rpc env h) :: ((blockInfo, reason) Result, exn) promise)) batch) = Pending"
  proof -
    have nr: "\<And>e. promise_all (map (\<lambda>h. (promiseResult (rpc env h) :: ((blockInfo, reason) Result, exn) promise)) batch) \<noteq> Rejected e"
      by (rule promise_all_not_Rejected) (simp add: promiseResult_not_Rejected)
    have nf: "\<And>rs. promise_all (map (\<lambda>h. (promiseResult (rpc env h) :: ((blockInfo, reason) Result, exn) promise)) batch) \<noteq> Fulfilled rs"
    proof
      fix rs
      assume "promise_all (map (\<lambda>h. (promiseResult (rpc env h) :: ((blockInfo, reason) Result, exn) promise)) batch) = Fulfilled rs"
      then have "map (\<lambda>h. (promiseResult (rpc env h) :: ((blockInfo, reason) Result, exn) promise)) batch = map Fulfilled rs"
        by (rule promise_all_elements)
      moreover have "(promiseResult (rpc env h) :: ((blockInfo, reason) Result, exn) promise) \<in> set (map (\<lambda>h. promiseResult (rpc env h)) batch)"
        using h(1) by simp
      ultimately have "(promiseResult (rpc env h) :: ((blockInfo, reason) Result, exn) promise) \<in> set (map Fulfilled rs)"
        by simp
      then show False by (auto simp add: h(2) promiseResult_Pending)
    qed
    show ?thesis
      using nr nf by (cases "promise_all (map (\<lambda>h. (promiseResult (rpc env h) :: ((blockInfo, reason) Result, exn) promise)) batch)") auto
  qed
  then show ?thesis
    by (simp add: start_save_def saveBlocksFromRequests_def comp_def)
qed

lemma sync_loop_Suc_end:
  "snd (snd (sync_loop (Suc n) cfg env bottom h q w)) =
     (if h \<ge> bottom then
        (let q1 = push_request h q;
             q2 = fst (detach_batch cfg env q1 w);
             w2 = snd (detach_batch cfg env q1 w)
         in case snd (await_oldest cfg q2) of
              Proceeds \<Rightarrow> snd (snd (sync_loop n cfg env bottom (js_sub h 1) (fst (await_oldest cfg q2)) w2))
            | Throws e \<Rightarrow> Aborted e
            | Waits \<Rightarrow> Hangs)
      else snd (snd (flush env q w)))"
  by (simp add: Let_def split_beta split: awaited.splits)

lemma sync_loop_not_Aborted:
  assumes "\<forall>h. rpc env h \<noteq> Rejected (Defined Null)"
  shows "no_save_rejected q \<Longrightarrow> snd (snd (sync_loop n cfg env bottom h q w)) \<noteq> Aborted e"
proof (induction n arbitrary: h q w)
  case 0
  show ?case by simp
next
  case (Suc n)
  show ?case
  proof (cases "bottom \<le> h")
    case False
    have "\<forall>p \<in> set (map snd (saves q @ [(requests q, snd (start_save env (requests q) w))])). \<forall>e. p \<noteq> Rejected e"
      using Suc.prems start_save_not_Rejected [OF assms] by (auto simp add: no_save_rejected_def)
    then have "\<And>e. promise_all (map snd (saves q @ [(requests q, snd (start_save env (requests q) w))])) \<noteq> Rejected e"
      by (rule promise_all_not_Rejected)
    then show ?thesis
      using False
      by (simp add: sync_loop_Suc_end flush_def Let_def split_beta del: sync_loop.simps split: promise.splits)
  next
    case True
    define q1 where "q1 = push_request h q"
    define q2 where "q2 = fst (detach_batch cfg env q1 w)"
    define w2 where "w2 = snd (detach_batch cfg env q1 w)"
    define q3 where "q3 = fst (await_oldest cfg q2)"
    have i1: "no_save_rejected q1" using Suc.prems by (simp add: q1_def push_request_def no_save_rejected_def)
    have i2: "no_save_rejected q2"
      using i1 start_save_not_Rejected [OF assms]
      by (auto simp add: q2_def detach_batch_queues no_save_rejected_def)
    have i3: "no_save_rejected q3"
      using i2 by (cases "saves q2") (auto simp add: q3_def await_oldest_queues no_save_rejected_def)
    have nt: "snd (await_oldest cfg q2) \<noteq> Throws e"
      using i2 by (auto simp add: await_oldest_def no_save_rejected_def split: list.splits promise.splits)
    show ?thesis
      using True nt Suc.IH [OF i3, of "js_sub h 1" w2]
      by (cases "snd (await_oldest cfg q2)")
        (auto simp add: sync_loop_Suc_end Let_def q1_def [symmetric] q2_def [symmetric]
          w2_def [symmetric] q3_def [symmetric] simp del: sync_loop.simps)
  qed
qed

lemma js_int_exact: "- (2 ^ 53) < i \<Longrightarrow> i < 2 ^ 53 \<Longrightarrow> js_int i = i"
  by (simp add: js_int_def js_number_exact nat_less_iff)

lemma start_save_Fulfilled:
  assumes "\<forall>h. rpc env h \<noteq> Rejected (Defined Null) \<and> rpc env h \<noteq> Pending"
  shows "snd (start_save env batch w) = Fulfilled ()"
proof -
  define hps where "hps = map (\<lambda>h. (h, rpc env h)) batch"
  have m: "map (\<lambda>h. (h, promiseResult (rpc env h))) batch = map (\<lambda>(h, p). (h, promiseResult p)) hps"
    by (simp add: hps_def)
  have "\<forall>(h, p) \<in> set hps. p \<noteq> Pending \<and> p \<noteq> Rejected (Defined Null)"
    using assms by (auto simp add: hps_def)
  then show ?thesis
    unfolding start_save_def m by (simp add: saveBlocksFromRequests_settled)
qed

lemma promise_all_units:
  assumes "\<forall>p \<in> set ps. p = Fulfilled ()"
  shows "\<exists>us. promise_all ps = Fulfilled us"
  using assms by (induction ps) auto

lemma sync_loop_Completed:
  assumes "\<forall>h. rpc env h \<noteq> Rejected (Defined Null) \<and> rpc env h \<noteq> Pending"
    and "0 \<le> bottom"
  shows "all_saves_fulfilled q \<Longrightarrow> h < 2 ^ 53 \<Longrightarrow> bottom - 1 \<le> h \<Longrightarrow> nat (h - bottom + 1) + 1 \<le> n \<Longrightarrow>
     snd (snd (sync_loop n cfg env bottom h q w)) = Completed"
proof (induction n arbitrary: h q w)
  case 0
  then show ?case by simp
next
  case (Suc n)
  show ?case
  proof (cases "bottom \<le> h")
    case False
    have "\<forall>p \<in> set (map snd (saves q @ [(requests q, snd (start_save env (requests q) w))])). p = Fulfilled ()"
      using Suc.prems(1) start_save_Fulfilled [OF assms(1)] by (auto simp add: all_saves_fulfilled_def)
    then have "\<exists>us. promise_all (map snd (saves q @ [(requests q, snd (start_save env (requests q) w))])) = Fulfilled us"
      by (rule promise_all_units)
    then show ?thesis
      using False
      by (auto simp add: sync_loop_Suc_end flush_def Let_def split_beta simp del: sync_loop.simps)
  next
    case True
    define q1 where "q1 = push_request h q"
    define q2 where "q2 = fst (detach_batch cfg env q1 w)"
    define w2 where "w2 = snd (detach_batch cfg env q1 w)"
    define q3 where "q3 = fst (await_oldest cfg q2)"
    have i1: "all_saves_fulfilled q1"
      using Suc.prems(1) by (simp add: q1_def push_request_def all_saves_fulfilled_def)
    have i2: "all_saves_fulfilled q2"
      using i1 start_save_Fulfilled [OF assms(1)]
      by (auto simp add: q2_def detach_batch_queues all_saves_fulfilled_def)
    have i3: "all_saves_fulfilled q3"
      using i2 by (cases "saves q2") (auto simp add: q3_def await_oldest_queues all_saves_fulfilled_def)
    have pr: "snd (await_oldest cfg q2) = Proceeds"
      using i2 by (auto simp add: await_oldest_def all_saves_fulfilled_def split: list.splits promise.splits)
    have "(1::int) < 2 ^ 53" by simp
    then have "- (2 ^ 53) < h - 1" "h - 1 < 2 ^ 53"
      using True assms(2) Suc.prems(2) by linarith+
    then have "js_int (h - 1) = h - 1"
      by (rule js_int_exact)
    then have dec: "js_sub h 1 = h - 1"
      by (simp add: js_sub_def)
    have "snd (snd (sync_loop n cfg env bottom (h - 1) q3 w2)) = Completed"
      using True Suc.prems(2,4) by (intro Suc.IH [OF i3]) auto
    then show ?thesis
      using True pr
      by (simp add: sync_loop_Suc_end Let_def dec q1_def [symmetric] q2_def [symmetric]
          w2_def [symmetric] q3_def [symmetric] del: sync_loop.simps)
  qed
qed

lemma sync_loop_requested:
  assumes "\<forall>h. rpc env h \<noteq> Rejected (Defined Null) \<and> rpc env h \<noteq> Pending"
    and "0 \<le> bottom"
  shows "all_saves_fulfilled q \<Longrightarrow> h < 2 ^ 53 \<Longrightarrow> bottom - 1 \<le> h \<Longrightarrow> nat (h - bottom + 1) + 1 \<le> n \<Longrightarrow>
     requested (fst (sync_loop n cfg env bottom h q w)) = rev [bottom..h]"
proof (induction n arbitrary: h q w)
  case 0
  then show ?case by simp
next
  case (Suc n)
  show ?case
  proof (cases "bottom \<le> h")
    case False
    then show ?thesis
      by (simp add: sync_loop_Suc_trace requested_def del: sync_loop.simps)
  next
    case True
    define q1 where "q1 = push_request h q"
    define q2 where "q2 = fst (detach_batch cfg env q1 w)"
    define w2 where "w2 = snd (detach_batch cfg env q1 w)"
    define q3 where "q3 = fst (await_oldest cfg q2)"
    have i1: "all_saves_fulfilled q1"
      using Suc.prems(1) by (simp add: q1_def push_request_def all_saves_fulfilled_def)
    have i2: "all_saves_fulfilled q2"
      using i1 start_save_Fulfilled [OF assms(1)]
      by (auto simp add: q2_def detach_batch_queues all_saves_fulfilled_def)
    have i3: "all_saves_fulfilled q3"
      using i2 by (cases "saves q2") (auto simp add: q3_def await_oldest_queues all_saves_fulfilled_def)
    have pr: "snd (await_oldest cfg q2) = Proceeds"
      using i2 by (auto simp add: await_oldest_def all_saves_fulfilled_def split: list.splits promise.splits)
    have "(1::int) < 2 ^ 53" by simp
    then have "- (2 ^ 53) < h - 1" "h - 1 < 2 ^ 53"
      using True assms(2) Suc.prems(2) by linarith+
    then have "js_int (h - 1) = h - 1"
      by (rule js_int_exact)
    then have dec: "js_sub h 1 = h - 1"
      by (simp add: js_sub_def)
    have l: "last (requests q1) = h" by (simp add: q1_def push_request_def)
    have "requested (fst (sync_loop n cfg env bottom (h - 1) q3 w2)) = rev [bottom..h - 1]"
      using True Suc.prems(2,4) by (intro Suc.IH [OF i3]) auto
    moreover have "[bottom..h] = [bottom..h - 1] @ [h]"
      using True by (simp add: upto_rec2)
    ultimately show ?thesis
      using True pr l
      by (simp add: sync_loop_Suc_trace Let_def dec requested_def q1_def [symmetric] q2_def [symmetric]
          w2_def [symmetric] q3_def [symmetric] del: sync_loop.simps)
  qed
qed

text \<open>
  C5 as stated: the failed heights of a batch are logged and left out, every fetched
  block of the batch is passed on, and a failed fetch never aborts the rest of the range.
  A batch with the fetched block of height 5 alone stores that block. When the request
  for height 4 of the same batch was rejected with the reason \<^verbatim>\<open>undefined\<close>, its envelope is
  not an error: no line is written for height 4, \<^verbatim>\<open>undefined\<close> is passed on as a block, the
  row builder throws, and block 5 is not stored. When it was rejected with \<^verbatim>\<open>null\<close>, reading
  \<^verbatim>\<open>error.type\<close> throws: nothing is logged or stored and the call rejects. A pass from 3
  down to 1 whose request for height 3 is rejected with \<^verbatim>\<open>null\<close> ends with that TypeError
  after its first iteration, and the heights 2 and 1 are never requested.
\<close>

theorem fetch_failure_counterexample:
  "map b_hash (Blocks (db (fst (saveBlocksFromRequests all_succeed
             [(5, promiseResult (Fulfilled (Defined sample_block)))] empty_world)))) = [''H5'']
   \<and> saveBlocksFromRequests all_succeed
       [(5, promiseResult (Fulfilled (Defined sample_block))), (4, promiseResult (Rejected Undefined))]
       empty_world
     = (empty_world\<lparr>console := [Warn_save (TypeError ''header'')]\<rparr>, Fulfilled ())
   \<and> saveBlocksFromRequests all_succeed
       [(5, promiseResult (Fulfilled (Defined sample_block))), (4, promiseResult (Rejected (Defined Null)))]
       empty_world
     = (empty_world, Rejected (TypeError ''type''))
   \<and> syncNearcoreBlocks 4 eager_config null_at_3 3 1 empty_world
     = ([(After_push, \<lparr>requests = [3], saves = []\<rparr>),
         (After_detach, \<lparr>requests = [], saves = [([3], Rejected (TypeError ''type''))]\<rparr>)],
        empty_world, Aborted (TypeError ''type''))"
proof (intro conjI)
  show "map b_hash (Blocks (db (fst (saveBlocksFromRequests all_succeed
             [(5, promiseResult (Fulfilled (Defined sample_block)))] empty_world)))) = [''H5'']"
    by (simp add: saveBlocksFromRequests_def promiseResult_Fulfilled harvest_one_def isError_def
        saveBlocks_def transaction_callback_def all_succeed_def empty_world_def blockRow_def
        chunkRow_def sample_block_def transactionRow_def toBase58_def defined_blocks_def Let_def)
  show "saveBlocksFromRequests all_succeed
       [(5, promiseResult (Fulfilled (Defined sample_block))), (4, promiseResult (Rejected Undefined))]
       empty_world
     = (empty_world\<lparr>console := [Warn_save (TypeError ''header'')]\<rparr>, Fulfilled ())"
    by (simp add: saveBlocksFromRequests_def promiseResult_Fulfilled promiseResult_Rejected
        harvest_one_def isError_def saveBlocks_def transaction_callback_def all_succeed_def
        empty_world_def blockRow_def chunkRow_def Let_def)
  show "saveBlocksFromRequests all_succeed
       [(5, promiseResult (Fulfilled (Defined sample_block))), (4, promiseResult (Rejected (Defined Null)))]
       empty_world
     = (empty_world, Rejected (TypeError ''type''))"
    by (simp add: saveBlocksFromRequests_def promiseResult_Fulfilled promiseResult_Rejected
        harvest_one_def isError_def empty_world_def Let_def)
  show "syncNearcoreBlocks 4 eager_config null_at_3 3 1 empty_world
     = ([(After_push, \<lparr>requests = [3], saves = []\<rparr>),
         (After_detach, \<lparr>requests = [], saves = [([3], Rejected (TypeError ''type''))]\<rparr>)],
        empty_world, Aborted (TypeError ''type''))"
    by (simp add: syncNearcoreBlocks_def eager_config_def null_at_3_def numeral_eq_Suc
        push_request_def detach_batch_def await_oldest_def start_save_def
        saveBlocksFromRequests_def promiseResult_Rejected harvest_one_def isError_def
        empty_world_def Let_def)
qed

text \<open>
  C5, amended. For every batch whose requests have settled, none of them rejected with
  \<^verbatim>\<open>undefined\<close> or \<^verbatim>\<open>null\<close>, \<open>saveBlocksFromRequests\<close> writes one line for each rejected
  request and calls \<open>saveBlocks\<close> once, with the blocks of all fulfilled requests in the
  order of the batch, and is fulfilled. A pass over a range none of whose requests is
  rejected with \<^verbatim>\<open>null\<close> never ends with an exception; when moreover every request settles
  and the heights are between 0 and \<open>2^53\<close>, the pass requests every height of the range,
  from the top down, and completes (given one iteration for each height of the range and
  one for the flush).
\<close>

theorem fetch_failures_are_dropped:
  "((\<forall>(h, p) \<in> set hps. p \<noteq> Pending \<and> p \<noteq> Rejected Undefined \<and> p \<noteq> Rejected (Defined Null)) \<longrightarrow>
      saveBlocksFromRequests env (map (\<lambda>(h, p). (h, promiseResult p)) hps) w =
        (saveBlocks env (fetched_blocks hps) (w\<lparr>console := console w @ failure_lines hps\<rparr>),
         Fulfilled ()))
   \<and> ((\<forall>h. rpc penv h \<noteq> Rejected (Defined Null)) \<longrightarrow>
        (\<forall>e. snd (snd (syncNearcoreBlocks n cfg penv topHeight bottomHeight w)) \<noteq> Aborted e))
   \<and> ((\<forall>h. rpc penv h \<noteq> Rejected (Defined Null) \<and> rpc penv h \<noteq> Pending)
        \<and> 0 \<le> bottomHeight \<and> topHeight < 2 ^ 53
        \<and> nat (topHeight - bottomHeight) + 2 \<le> n \<longrightarrow>
        snd (snd (syncNearcoreBlocks n cfg penv topHeight bottomHeight w)) = Completed
      \<and> requested (fst (syncNearcoreBlocks n cfg penv topHeight bottomHeight w)) =
          rev [bottomHeight..topHeight])"
proof (intro conjI impI allI)
  assume a: "\<forall>(h, p) \<in> set hps. p \<noteq> Pending \<and> p \<noteq> Rejected Undefined \<and> p \<noteq> Rejected (Defined Null)"
  then have b: "\<forall>(h, p) \<in> set hps. p \<noteq> Pending \<and> p \<noteq> Rejected (Defined Null)" by auto
  have "(\<lambda>(h :: int, p). case p of Rejected (Defined error) \<Rightarrow> [] | _ \<Rightarrow> [r_value (envelope p)]) hp
      = (\<lambda>(h, p). case p of Fulfilled v \<Rightarrow> [v] | _ \<Rightarrow> []) hp" if "hp \<in> set hps" for hp
    using a that by (auto simp add: envelope_def split: promise.splits js.splits)
  then have "concat (map (\<lambda>(h, p). case p of Rejected (Defined error) \<Rightarrow> [] | _ \<Rightarrow> [r_value (envelope p)]) hps)
      = fetched_blocks hps"
    unfolding fetched_blocks_def by (intro arg_cong [where f = concat] map_cong refl)
  then show "saveBlocksFromRequests env (map (\<lambda>(h, p). (h, promiseResult p)) hps) w =
        (saveBlocks env (fetched_blocks hps) (w\<lparr>console := console w @ failure_lines hps\<rparr>),
         Fulfilled ())"
    by (simp add: saveBlocksFromRequests_settled [OF b])
next
  fix e
  assume "\<forall>h. rpc penv h \<noteq> Rejected (Defined Null)"
  then show "snd (snd (syncNearcoreBlocks n cfg penv topHeight bottomHeight w)) \<noteq> Aborted e"
    by (simp add: syncNearcoreBlocks_def sync_loop_not_Aborted no_save_rejected_def)
next
  assume a: "(\<forall>h. rpc penv h \<noteq> Rejected (Defined Null) \<and> rpc penv h \<noteq> Pending)
        \<and> 0 \<le> bottomHeight \<and> topHeight < 2 ^ 53
        \<and> nat (topHeight - bottomHeight) + 2 \<le> n"
  have i: "all_saves_fulfilled \<lparr>requests = [], saves = []\<rparr>"
    by (simp add: all_saves_fulfilled_def)
  from a have r: "\<forall>h. rpc penv h \<noteq> Rejected (Defined Null) \<and> rpc penv h \<noteq> Pending"
    and b: "0 \<le> bottomHeight" and t: "topHeight < 2 ^ 53"
    and n: "nat (topHeight - bottomHeight) + 2 \<le> n"
    by blast+
  show "snd (snd (syncNearcoreBlocks n cfg penv topHeight bottomHeight w)) = Completed"
  proof (cases "topHeight < bottomHeight")
    case True
    then show ?thesis by (simp add: syncNearcoreBlocks_def)
  next
    case False
    have "snd (snd (sync_loop n cfg penv bottomHeight topHeight \<lparr>requests = [], saves = []\<rparr> w)) = Completed"
      by (rule sync_loop_Completed [OF r b i t]) (use False n in simp_all)
    then show ?thesis
      using False by (simp add: syncNearcoreBlocks_def)
  qed
  show "requested (fst (syncNearcoreBlocks n cfg penv topHeight bottomHeight w)) =
      rev [bottomHeight..topHeight]"
  proof (cases "topHeight < bottomHeight")
    case True
    then show ?thesis by (simp add: syncNearcoreBlocks_def requested_def)
  next
    case False
    have "requested (fst (sync_loop n cfg penv bottomHeight topHeight \<lparr>requests = [], saves = []\<rparr> w))
        = rev [bottomHeight..topHeight]"
      by (rule sync_loop_requested [OF r b i t]) (use False n in simp_all)
    then show ?thesis
      using False by (simp add: syncNearcoreBlocks_def)
  qed
qed

theorem fetch_failures_are_dropped_witness:
  "saveBlocksFromRequests all_succeed
     [(5, promiseResult (Fulfilled (Defined sample_block))),
      (4, promiseResult (Rejected (Defined (Error_object \<lparr> e_type = Defined ''system'', e_message = ''timeout'' \<rparr>))))]
     empty_world =
     (saveBlocks all_succeed [Defined sample_block]
        (empty_world\<lparr>console := [Log_fetch_system 4 ''timeout'']\<rparr>), Fulfilled ())
   \<and> map b_hash (Blocks (db (saveBlocks all_succeed [Defined sample_block]
        (empty_world\<lparr>console := [Log_fetch_system 4 ''timeout'']\<rparr>)))) = [''H5'']
   \<and> snd (snd (syncNearcoreBlocks 4 eager_config node_down 3 1 empty_world)) = Completed
   \<and> requested (fst (syncNearcoreBlocks 4 eager_config node_down 3 1 empty_world)) = [3, 2, 1]"
proof -
  note t = fetch_failures_are_dropped
    [where hps = "[(5, Fulfilled (Defined sample_block)),
        (4, Rejected (Defined (Error_object \<lparr> e_type = Defined ''system'', e_message = ''timeout'' \<rparr>)))]"
      and env = all_succeed and w = empty_world and penv = node_down and n = 4
      and cfg = eager_config and topHeight = 3 and bottomHeight = 1]
  have u: "[1..3::int] = [1, 2, 3]" by (simp add: upto_rec1)
  have 1: "saveBlocksFromRequests all_succeed
     [(5, promiseResult (Fulfilled (Defined sample_block))),
      (4, promiseResult (Rejected (Defined (Error_object \<lparr> e_type = Defined ''system'', e_message = ''timeout'' \<rparr>))))]
     empty_world =
     (saveBlocks all_succeed [Defined sample_block]
        (empty_world\<lparr>console := [Log_fetch_system 4 ''timeout'']\<rparr>), Fulfilled ())"
    using t by (simp add: fetched_blocks_def failure_lines_def fetch_log_def empty_world_def)
  have 2: "snd (snd (syncNearcoreBlocks 4 eager_config node_down 3 1 empty_world)) = Completed
      \<and> requested (fst (syncNearcoreBlocks 4 eager_config node_down 3 1 empty_world)) = [3, 2, 1]"
    using t by (simp add: node_down_def u)
  have 3: "map b_hash (Blocks (db (saveBlocks all_succeed [Defined sample_block]
        (empty_world\<lparr>console := [Log_fetch_system 4 ''timeout'']\<rparr>)))) = [''H5'']"
    by (simp add: saveBlocks_def transaction_callback_def all_succeed_def sample_block_def
        empty_world_def blockRow_def chunkRow_def transactionRow_def toBase58_def
        defined_blocks_def Let_def)
  from 1 2 3 show ?thesis by blast
qed

subsection \<open>C3 and C9: the bisection of the gap sync\<close>

lemma js_arith_safe:
  assumes "0 \<le> lo" "lo \<le> hi" "hi < 2 ^ 52"
  shows "js_sub hi lo = hi - lo" and "js_add (hi - lo) 1 = hi - lo + 1"
    and "js_add lo hi = lo + hi" and "js_add ((lo + hi) div 2) 1 = (lo + hi) div 2 + 1"
proof -
  have p: "(2::int) ^ 53 = 2 * 2 ^ 52" "(1::int) < 2 ^ 52" by simp_all
  have "- (2 ^ 53) < hi - lo" "hi - lo < 2 ^ 53" using assms p by linarith+
  then show "js_sub hi lo = hi - lo" unfolding js_sub_def by (rule js_int_exact)
  have "- (2 ^ 53) < hi - lo + 1" "hi - lo + 1 < 2 ^ 53" using assms p by linarith+
  then show "js_add (hi - lo) 1 = hi - lo + 1" unfolding js_add_def by (rule js_int_exact)
  have "- (2 ^ 53) < lo + hi" "lo + hi < 2 ^ 53" using assms p by linarith+
  then show "js_add lo hi = lo + hi" unfolding js_add_def by (rule js_int_exact)
  have "(lo + hi) div 2 \<le> hi" "0 \<le> (lo + hi) div 2" using assms by simp_all
  then have "- (2 ^ 53) < (lo + hi) div 2 + 1" "(lo + hi) div 2 + 1 < 2 ^ 53" using assms p by linarith+
  then show "js_add ((lo + hi) div 2) 1 = (lo + hi) div 2 + 1" unfolding js_add_def by (rule js_int_exact)
qed

lemma count_between_le:
  assumes "distinct rows" "lo \<le> hi"
  shows "int (count_between rows lo hi) \<le> hi - lo + 1"
proof -
  let ?f = "filter (\<lambda>h. lo \<le> h \<and> h \<le> hi) rows"
  have d: "distinct ?f" using assms(1) by simp
  have sub: "set ?f \<subseteq> {lo..hi}" by auto
  have "length ?f = card (set ?f)" by (rule distinct_card [OF d, symmetric])
  also have "\<dots> \<le> card {lo..hi}" using sub by (rule card_mono [rotated]) simp
  also have "\<dots> = nat (hi - lo + 1)" by simp
  finally show ?thesis using assms(2) by (simp add: count_between_def)
qed

lemma bisection_unfold:
  assumes "0 \<le> lo" "lo \<le> hi" "hi < 2 ^ 52"
  shows "syncMissingNearcoreBlocks pipeline fq lo hi rows =
          (if int (count_between rows lo hi) = hi - lo + 1 then Some rows
           else if js_le (hi - lo) fq \<and> count_between rows lo hi = 0 then pipeline hi lo rows
           else Option.bind (syncMissingNearcoreBlocks pipeline fq lo ((lo + hi) div 2) rows)
                  (syncMissingNearcoreBlocks pipeline fq ((lo + hi) div 2 + 1) hi))"
  using assms(2)
  by (subst syncMissingNearcoreBlocks.simps) (auto simp add: js_arith_safe [OF assms] Let_def)

lemma bisection_depth_unfold:
  assumes "0 \<le> lo" "lo \<le> hi" "hi < 2 ^ 52"
  shows "syncMissingNearcoreBlocks_depth pipeline fq lo hi rows =
          (if int (count_between rows lo hi) = hi - lo + 1 then Some (rows, 0)
           else if js_le (hi - lo) fq \<and> count_between rows lo hi = 0
             then map_option (\<lambda>rows'. (rows', 0)) (pipeline hi lo rows)
           else Option.bind (syncMissingNearcoreBlocks_depth pipeline fq lo ((lo + hi) div 2) rows)
              (\<lambda>r1. Option.bind
                 (syncMissingNearcoreBlocks_depth pipeline fq ((lo + hi) div 2 + 1) hi (fst r1))
                 (\<lambda>r2. Some (fst r2, 1 + max (snd r1) (snd r2)))))"
  using assms(2)
  by (subst syncMissingNearcoreBlocks_depth.simps) (auto simp add: js_arith_safe [OF assms] Let_def)

lemma recurses_safe:
  assumes "0 \<le> lo" "lo \<le> hi" "hi < 2 ^ 52"
  shows "recurses fq lo hi rows \<longleftrightarrow>
     int (count_between rows lo hi) \<noteq> hi - lo + 1
     \<and> \<not> (js_le (hi - lo) fq \<and> count_between rows lo hi = 0)"
  using assms(2) by (auto simp add: recurses_def js_arith_safe [OF assms])

lemma recurses_lt:
  assumes "distinct rows" "0 \<le> lo" "lo \<le> hi" "hi < 2 ^ 52" "js_le 0 fq" "recurses fq lo hi rows"
  shows "lo < hi"
proof (rule ccontr)
  assume "\<not> lo < hi"
  with assms(3) have eq: "lo = hi" by simp
  from count_between_le [OF assms(1), of lo hi] eq
  have c: "count_between rows lo hi = 0 \<or> count_between rows lo hi = 1" by auto
  from assms(6) have r: "int (count_between rows lo hi) \<noteq> hi - lo + 1"
    "\<not> (js_le (hi - lo) fq \<and> count_between rows lo hi = 0)"
    by (simp_all add: recurses_safe [OF assms(2,3,4)])
  from c r assms(5) show False by (auto simp add: eq)
qed

lemma bisection_total:
  assumes pres: "\<And>h l rs. distinct rs \<Longrightarrow> count_between rs l h = 0 \<Longrightarrow>
      \<exists>rs'. pipeline h l rs = Some rs' \<and> distinct rs'"
    and fq: "js_le 0 fq"
  shows "distinct rows \<Longrightarrow> 0 \<le> lo \<Longrightarrow> lo \<le> hi \<Longrightarrow> hi < 2 ^ 52 \<Longrightarrow> n = nat (hi - lo + 1) \<Longrightarrow>
     \<exists>rows' d. syncMissingNearcoreBlocks pipeline fq lo hi rows = Some rows'
        \<and> syncMissingNearcoreBlocks_depth pipeline fq lo hi rows = Some (rows', d)
        \<and> distinct rows' \<and> (d = 0 \<or> 2 ^ d \<le> 2 * (n - 1))"
proof (induction n arbitrary: lo hi rows rule: less_induct)
  case (less n)
  note safe = less.prems(2,3,4)
  show ?case
  proof (cases "recurses fq lo hi rows")
    case False
    show ?thesis
    proof (cases "int (count_between rows lo hi) = hi - lo + 1")
      case True
      then show ?thesis
        using less.prems(1) by (simp add: bisection_unfold [OF safe] bisection_depth_unfold [OF safe])
    next
      case ne: False
      with False have g: "js_le (hi - lo) fq" "count_between rows lo hi = 0"
        by (auto simp add: recurses_safe [OF safe])
      from pres [OF less.prems(1) g(2)] obtain rs' where "pipeline hi lo rows = Some rs'" "distinct rs'"
        by blast
      then show ?thesis
        using ne g by (simp add: bisection_unfold [OF safe] bisection_depth_unfold [OF safe])
    qed
  next
    case True
    have lt: "lo < hi" using recurses_lt [OF less.prems(1) safe fq True] .
    define mid where "mid = (lo + hi) div 2"
    have m: "lo \<le> mid" "mid < hi" using lt by (simp_all add: mid_def)
    have s1: "0 \<le> lo" "lo \<le> mid" "mid < 2 ^ 52" using safe m by simp_all
    have s2: "0 \<le> mid + 1" "mid + 1 \<le> hi" "hi < 2 ^ 52" using safe m by simp_all
    define n1 where "n1 = nat (mid - lo + 1)"
    define n2 where "n2 = nat (hi - (mid + 1) + 1)"
    have sz: "n1 < n" "n2 < n" "2 * n1 \<le> n + 1" "2 * n2 \<le> n + 1" "2 \<le> n" "1 \<le> n1" "1 \<le> n2"
      using lt m less.prems(5) by (auto simp add: n1_def n2_def mid_def)
    from less.IH [OF sz(1) less.prems(1) s1 n1_def]
    obtain rows1 d1 where r1:
      "syncMissingNearcoreBlocks pipeline fq lo mid rows = Some rows1"
      "syncMissingNearcoreBlocks_depth pipeline fq lo mid rows = Some (rows1, d1)"
      "distinct rows1" "d1 = 0 \<or> 2 ^ d1 \<le> 2 * (n1 - 1)"
      by blast
    from less.IH [OF sz(2) r1(3) s2 n2_def]
    obtain rows2 d2 where r2:
      "syncMissingNearcoreBlocks pipeline fq (mid + 1) hi rows1 = Some rows2"
      "syncMissingNearcoreBlocks_depth pipeline fq (mid + 1) hi rows1 = Some (rows2, d2)"
      "distinct rows2" "d2 = 0 \<or> 2 ^ d2 \<le> 2 * (n2 - 1)"
      by blast
    from True have rc: "int (count_between rows lo hi) \<noteq> hi - lo + 1"
      "\<not> (js_le (hi - lo) fq \<and> count_between rows lo hi = 0)"
      by (simp_all add: recurses_safe [OF safe])
    have e1: "syncMissingNearcoreBlocks pipeline fq lo hi rows = Some rows2"
      using r1(1) r2(1) rc by (auto simp add: bisection_unfold [OF safe] mid_def [symmetric])
    have e2: "syncMissingNearcoreBlocks_depth pipeline fq lo hi rows = Some (rows2, 1 + max d1 d2)"
      using r1(2) r2(2) rc by (auto simp add: bisection_depth_unfold [OF safe] mid_def [symmetric])
    have b1: "(2::nat) ^ d1 \<le> n - 1"
    proof (cases "d1 = 0")
      case True then show ?thesis using sz(5) by simp
    next
      case False
      with r1(4) have "2 ^ d1 \<le> 2 * (n1 - 1)" by simp
      also have "\<dots> \<le> n - 1" using sz by arith
      finally show ?thesis .
    qed
    have b2: "(2::nat) ^ d2 \<le> n - 1"
    proof (cases "d2 = 0")
      case True then show ?thesis using sz(5) by simp
    next
      case False
      with r2(4) have "2 ^ d2 \<le> 2 * (n2 - 1)" by simp
      also have "\<dots> \<le> n - 1" using sz by arith
      finally show ?thesis .
    qed
    have "(2::nat) ^ max d1 d2 \<le> n - 1" using b1 b2 by (simp add: max_def)
    then have "(2::nat) ^ (1 + max d1 d2) \<le> 2 * (n - 1)" by simp
    with e1 e2 r2(3) show ?thesis by blast
  qed
qed

lemma depth_le_log:
  fixes d :: nat and n :: int
  assumes "1 \<le> n" "d = 0 \<or> 2 ^ d \<le> 2 * (nat n - 1)"
  shows "real d \<le> log 2 (real_of_int n) + 1"
proof (cases "d = 0")
  case True
  have "0 \<le> log 2 (real_of_int n)" using assms(1) by simp
  then show ?thesis using True by simp
next
  case False
  with assms(2) have "2 ^ d \<le> 2 * (nat n - 1)" by simp
  then have "2 ^ d \<le> 2 * nat n" by simp
  then have "real (2 ^ d) \<le> real (2 * nat n)" by (rule of_nat_mono)
  then have "(2::real) ^ d \<le> 2 * real_of_int n" using assms(1) by simp
  then have "log 2 (2 ^ d) \<le> log 2 (2 * real_of_int n)"
    using assms(1) by (subst log_le_cancel_iff) simp_all
  moreover have "log 2 (2 * real_of_int n) = 1 + log 2 (real_of_int n)"
    using assms(1) by (simp add: log_mult)
  ultimately show ?thesis by simp
qed

lemma all_fetched_distinct:
  assumes "distinct rs" "count_between rs l h = 0"
  shows "\<exists>rs'. all_fetched h l rs = Some rs' \<and> distinct rs'"
proof -
  from assms(2) have "filter (\<lambda>x. l \<le> x \<and> x \<le> h) rs = []"
    by (simp add: count_between_def)
  then have "\<forall>x \<in> set rs. \<not> (l \<le> x \<and> x \<le> h)"
    by (simp add: filter_empty_conv)
  then have "set rs \<inter> {l..h} = {}" by auto
  with assms(1) show ?thesis by (simp add: all_fetched_def)
qed

lemma js_int_small [simp]:
  "js_int 0 = 0" "js_int 1 = 1" "js_int 2 = 2" "js_int 3 = 3" "js_int 4 = 4" "js_int 5 = 5"
  "js_int 6 = 6" "js_int 7 = 7" "js_int 8 = 8" "js_int 10 = 10"
  by (simp_all add: js_int_exact)

lemma gap_scenario:
  "syncMissingNearcoreBlocks all_fetched (Finite 2) 2 4 [1, 3, 5] = Some [1, 3, 5, 2, 4]"
  by (simp add: syncMissingNearcoreBlocks.simps count_between_def all_fetched_def Let_def
      js_add_def js_sub_def)

lemma gap_scenario_depth:
  "syncMissingNearcoreBlocks_depth all_fetched (Finite 2) 2 4 [1, 3, 5] = Some ([1, 3, 5, 2, 4], 2)"
  by (simp add: syncMissingNearcoreBlocks_depth.simps count_between_def all_fetched_def Let_def
      js_add_def js_sub_def)

lemma js_int_2_53:
  "js_int 9007199254740992 = 9007199254740992"
  "js_int 9007199254740993 = 9007199254740992"
  "js_int 9007199254740995 = 9007199254740996"
  "js_int 9007199254740996 = 9007199254740996"
  "js_int 18014398509481986 = 18014398509481984"
  "js_int 18014398509481988 = 18014398509481988"
  by (simp_all add: js_int_def js_number_def double_div_floor_def round_half_even_def Let_def
      up_shift.simps)

lemma gap_range_2_53:
  "gap_range [9007199254740992, 9007199254740996] = Some (9007199254740992, 9007199254740996)"
  by (simp add: gap_range_def findOne_height_desc_def findOne_height_asc_def js_add_def js_sub_def
      js_int_2_53)

lemma gap_range_safe:
  assumes "\<forall>h \<in> set rows. 0 \<le> h \<and> h < 2 ^ 52" "rows \<noteq> []"
  shows "gap_range rows = Some (Min (set rows) + 1, Max (set rows) - 1)"
proof -
  have p: "(2::int) ^ 53 = 2 * 2 ^ 52" "(1::int) < 2 ^ 52" by simp_all
  have "Min (set rows) \<in> set rows" "Max (set rows) \<in> set rows"
    using assms(2) by simp_all
  with assms(1) have b: "0 \<le> Min (set rows)" "Min (set rows) < 2 ^ 52"
    "0 \<le> Max (set rows)" "Max (set rows) < 2 ^ 52"
    by blast+
  have 1: "js_int (Min (set rows)) = Min (set rows)"
    by (rule js_int_exact) (use b p in linarith)+
  have 2: "js_int (Max (set rows)) = Max (set rows)"
    by (rule js_int_exact) (use b p in linarith)+
  have 3: "js_int (Min (set rows) + 1) = Min (set rows) + 1"
    by (rule js_int_exact) (use b p in linarith)+
  have 4: "js_int (Max (set rows) - 1) = Max (set rows) - 1"
    by (rule js_int_exact) (use b p in linarith)+
  show ?thesis
    using assms(2)
    by (simp add: gap_range_def findOne_height_desc_def findOne_height_asc_def js_add_def js_sub_def
        1 2 3 4)
qed

text \<open>
  C3 as stated: on a store with rows the range processed is \<open>lo = min + 1\<close>, \<open>hi = max - 1\<close>
  of the stored heights. The sums are sums of JavaScript numbers: with the stored heights
  \<open>2^53\<close> and \<open>2^53 + 4\<close> the range is \<open>[2^53, 2^53 + 4]\<close>, because \<open>2^53 + 1\<close> and
  \<open>2^53 + 3\<close> are not binary64 values.
\<close>

theorem gap_sync_range_counterexample:
  "\<not> (\<forall>rows. rows \<noteq> [] \<longrightarrow> gap_range rows = Some (Min (set rows) + 1, Max (set rows) - 1))"
proof
  assume "\<forall>rows. rows \<noteq> [] \<longrightarrow> gap_range rows = Some (Min (set rows) + 1, Max (set rows) - 1)"
  then have "gap_range [9007199254740992, 9007199254740996] =
      Some (Min (set [9007199254740992, 9007199254740996]) + 1,
            Max (set [9007199254740992, 9007199254740996]) - 1)"
    by simp
  then show False by (simp add: gap_range_2_53)
qed

text \<open>
  C3, amended. For stored heights between 0 and \<open>2^52\<close>: the gap sync is a no-op on a store
  with fewer than two rows; otherwise it processes the range from the least stored height
  plus one to the greatest stored height minus one. A range \<open>[lo, hi]\<close> with
  \<open>0 \<le> lo \<le> hi < 2^52\<close> is processed as follows: when the count of stored heights in the
  range equals \<open>hi - lo + 1\<close> the call returns; else when \<open>hi - lo \<le> FETCH_QUEUE\<close> and the
  count is 0 the pipeline is run over the range and the call returns; otherwise the range
  is split at \<open>mid = (lo + hi) div 2\<close> and \<open>[lo, mid]\<close> is processed, then \<open>[mid + 1, hi]\<close>.
  An empty range (\<open>lo > hi\<close>) leaves the store as it is.
\<close>

theorem gap_sync_algorithm:
  "((\<forall>h \<in> set rows. 0 \<le> h \<and> h < 2 ^ 52) \<longrightarrow>
       (length rows < 2 \<longrightarrow> syncMissingNearcoreState pipeline fq rows = Some rows)
     \<and> (rows \<noteq> [] \<longrightarrow>
          syncMissingNearcoreState pipeline fq rows =
            syncMissingNearcoreBlocks pipeline fq (Min (set rows) + 1) (Max (set rows) - 1) rows))
   \<and> (0 \<le> lo \<and> lo \<le> hi \<and> hi < 2 ^ 52 \<longrightarrow>
        syncMissingNearcoreBlocks pipeline fq lo hi rows =
          (if int (count_between rows lo hi) = hi - lo + 1 then Some rows
           else if js_le (hi - lo) fq \<and> count_between rows lo hi = 0 then pipeline hi lo rows
           else Option.bind (syncMissingNearcoreBlocks pipeline fq lo ((lo + hi) div 2) rows)
                  (syncMissingNearcoreBlocks pipeline fq ((lo + hi) div 2 + 1) hi)))
   \<and> (hi < lo \<longrightarrow> syncMissingNearcoreBlocks pipeline fq lo hi rows = Some rows)"
proof (intro conjI impI)
  assume s: "\<forall>h \<in> set rows. 0 \<le> h \<and> h < 2 ^ 52" and "length rows < 2"
  then consider "rows = []" | h where "rows = [h]"
    by (cases rows) (auto simp add: length_Suc_conv)
  then show "syncMissingNearcoreState pipeline fq rows = Some rows"
  proof cases
    case 1
    then show ?thesis
      by (simp add: syncMissingNearcoreState_def gap_range_def findOne_height_desc_def)
  next
    case 2
    then have "gap_range rows = Some (h + 1, h - 1)"
      using gap_range_safe [OF s] by simp
    then show ?thesis
      by (simp add: syncMissingNearcoreState_def syncMissingNearcoreBlocks.simps [of _ _ "h + 1" "h - 1"])
  qed
next
  assume "\<forall>h \<in> set rows. 0 \<le> h \<and> h < 2 ^ 52" and "rows \<noteq> []"
  then show "syncMissingNearcoreState pipeline fq rows =
      syncMissingNearcoreBlocks pipeline fq (Min (set rows) + 1) (Max (set rows) - 1) rows"
    by (simp add: syncMissingNearcoreState_def gap_range_safe)
next
  assume "0 \<le> lo \<and> lo \<le> hi \<and> hi < 2 ^ 52"
  then have "0 \<le> lo" "lo \<le> hi" "hi < 2 ^ 52" by blast+
  then show "syncMissingNearcoreBlocks pipeline fq lo hi rows =
          (if int (count_between rows lo hi) = hi - lo + 1 then Some rows
           else if js_le (hi - lo) fq \<and> count_between rows lo hi = 0 then pipeline hi lo rows
           else Option.bind (syncMissingNearcoreBlocks pipeline fq lo ((lo + hi) div 2) rows)
                  (syncMissingNearcoreBlocks pipeline fq ((lo + hi) div 2 + 1) hi))"
    by (rule bisection_unfold)
next
  assume "hi < lo"
  then show "syncMissingNearcoreBlocks pipeline fq lo hi rows = Some rows"
    by (subst syncMissingNearcoreBlocks.simps) simp
qed

theorem gap_sync_algorithm_witness:
  "(0 :: int) \<le> 7 \<and> (7 :: int) < 2 ^ 52 \<and> length [7 :: int] < 2
   \<and> syncMissingNearcoreState all_fetched (Finite 2) [7] = Some [7]
   \<and> 0 \<le> Min (set [1, 3, 5 :: int]) \<and> Max (set [1, 3, 5 :: int]) < 2 ^ 52 \<and> [1, 3, 5 :: int] \<noteq> []
   \<and> syncMissingNearcoreState all_fetched (Finite 2) [1, 3, 5] = Some [1, 3, 5, 2, 4]
   \<and> (0 :: int) \<le> 2 \<and> (2 :: int) \<le> 4 \<and> (4 :: int) < 2 ^ 52
   \<and> syncMissingNearcoreBlocks all_fetched (Finite 2) 2 4 [1, 3, 5] =
       Option.bind (syncMissingNearcoreBlocks all_fetched (Finite 2) 2 3 [1, 3, 5])
         (syncMissingNearcoreBlocks all_fetched (Finite 2) 4 4)"
proof -
  have a: "\<forall>h \<in> set [7 :: int]. 0 \<le> h \<and> h < 2 ^ 52" "length [7 :: int] < 2" by simp_all
  have b: "\<forall>h \<in> set [1, 3, 5 :: int]. 0 \<le> h \<and> h < 2 ^ 52" "[1, 3, 5 :: int] \<noteq> []" by simp_all
  have c: "(0 :: int) \<le> 2 \<and> (2 :: int) \<le> 4 \<and> (4 :: int) < 2 ^ 52" by simp
  from gap_sync_algorithm [of "[7]" all_fetched "Finite 2"] a
  have 1: "syncMissingNearcoreState all_fetched (Finite 2) [7] = Some [7]" by blast
  from gap_sync_algorithm [of "[1, 3, 5]" all_fetched "Finite 2"] b
  have "syncMissingNearcoreState all_fetched (Finite 2) [1, 3, 5] =
      syncMissingNearcoreBlocks all_fetched (Finite 2) (Min (set [1, 3, 5]) + 1) (Max (set [1, 3, 5]) - 1) [1, 3, 5]"
    by blast
  then have 2: "syncMissingNearcoreState all_fetched (Finite 2) [1, 3, 5] = Some [1, 3, 5, 2, 4]"
    by (simp add: gap_scenario)
  from gap_sync_algorithm [of "[1, 3, 5]" all_fetched "Finite 2" 2 4] c
  have 3: "syncMissingNearcoreBlocks all_fetched (Finite 2) 2 4 [1, 3, 5] =
       Option.bind (syncMissingNearcoreBlocks all_fetched (Finite 2) 2 3 [1, 3, 5])
         (syncMissingNearcoreBlocks all_fetched (Finite 2) 4 4)"
    by (simp add: count_between_def)
  have d: "(0 :: int) \<le> 7 \<and> (7 :: int) < 2 ^ 52
      \<and> 0 \<le> Min (set [1, 3, 5 :: int]) \<and> Max (set [1, 3, 5 :: int]) < 2 ^ 52"
    by simp
  from a(2) b(2) c d 1 2 3 show ?thesis by blast
qed

lemma bisection_duplicate_aux:
  assumes "syncMissingNearcoreBlocks pipeline fq lo hi rows = Some y"
  shows "\<not> (lo = 5 \<and> hi = 5 \<and> rows = [5, 5])"
proof (rule syncMissingNearcoreBlocks.raw_induct
    [where P = "\<lambda>pipeline fq lo hi rows y. \<not> (lo = 5 \<and> hi = 5 \<and> rows = [5, 5])", OF _ assms],
    goal_cases)
  case (1 f pipeline fq lo hi rows y)
  show ?case
  proof
    assume a: "lo = 5 \<and> hi = 5 \<and> rows = [5, 5]"
    with 1(2) have "Option.bind (f pipeline fq 5 5 [5, 5]) (\<lambda>rows1. f pipeline fq 6 5 rows1) = Some y"
      by (simp add: count_between_def Let_def js_add_def js_sub_def)
    then obtain y' where "f pipeline fq 5 5 [5, 5] = Some y'"
      by (cases "f pipeline fq 5 5 [5, 5]") simp_all
    from 1(1) [OF this] show False by simp
  qed
qed

lemma bisection_duplicate_diverges: "syncMissingNearcoreBlocks pipeline fq 5 5 [5, 5] = None"
proof (cases "syncMissingNearcoreBlocks pipeline fq 5 5 [5, 5]")
  case None
  then show ?thesis .
next
  case (Some y)
  from bisection_duplicate_aux [OF this] show ?thesis by simp
qed

lemma bisection_negative_aux:
  assumes "syncMissingNearcoreBlocks pipeline fq lo hi rows = Some y"
  shows "\<not> (fq = Finite (- 1) \<and> lo = 2 \<and> hi = 2 \<and> rows = [1, 3])"
proof (rule syncMissingNearcoreBlocks.raw_induct
    [where P = "\<lambda>pipeline fq lo hi rows y. \<not> (fq = Finite (- 1) \<and> lo = 2 \<and> hi = 2 \<and> rows = [1, 3])",
      OF _ assms],
    goal_cases)
  case (1 f pipeline fq lo hi rows y)
  show ?case
  proof
    assume a: "fq = Finite (- 1) \<and> lo = 2 \<and> hi = 2 \<and> rows = [1, 3]"
    with 1(2) have "Option.bind (f pipeline (Finite (- 1)) 2 2 [1, 3])
        (\<lambda>rows1. f pipeline (Finite (- 1)) 3 2 rows1) = Some y"
      by (simp add: count_between_def Let_def js_add_def js_sub_def)
    then obtain y' where "f pipeline (Finite (- 1)) 2 2 [1, 3] = Some y'"
      by (cases "f pipeline (Finite (- 1)) 2 2 [1, 3]") simp_all
    from 1(1) [OF this] show False by simp
  qed
qed

lemma bisection_negative_diverges:
  "syncMissingNearcoreBlocks pipeline (Finite (- 1)) 2 2 [1, 3] = None"
proof (cases "syncMissingNearcoreBlocks pipeline (Finite (- 1)) 2 2 [1, 3]")
  case None
  then show ?thesis .
next
  case (Some y)
  from bisection_negative_aux [OF this] show ?thesis by simp
qed

lemma bisection_rounding_aux:
  assumes "syncMissingNearcoreBlocks pipeline fq lo hi rows = Some y"
  shows "rows = [9007199254740992, 9007199254740996] \<longrightarrow>
     (lo = 9007199254740992 \<and> hi = 9007199254740992 \<longrightarrow> y = rows)
     \<and> \<not> (lo = 9007199254740992 \<and> hi = 9007199254740994)"
proof (rule syncMissingNearcoreBlocks.raw_induct
    [where P = "\<lambda>pipeline fq lo hi rows y. rows = [9007199254740992, 9007199254740996] \<longrightarrow>
       (lo = 9007199254740992 \<and> hi = 9007199254740992 \<longrightarrow> y = rows)
       \<and> \<not> (lo = 9007199254740992 \<and> hi = 9007199254740994)",
      OF _ assms],
    goal_cases)
  case (1 f pipeline fq lo hi rows y)
  show ?case
  proof (intro impI conjI)
    assume "rows = [9007199254740992, 9007199254740996]"
      and "lo = 9007199254740992 \<and> hi = 9007199254740992"
    with 1(2) show "y = rows"
      by (simp add: count_between_def Let_def js_add_def js_sub_def)
  next
    assume r: "rows = [9007199254740992, 9007199254740996]"
    show "\<not> (lo = 9007199254740992 \<and> hi = 9007199254740994)"
    proof
      assume a: "lo = 9007199254740992 \<and> hi = 9007199254740994"
      with r 1(2) have b: "Option.bind (f pipeline fq 9007199254740992 9007199254740992 rows)
          (\<lambda>rows1. f pipeline fq 9007199254740992 9007199254740994 rows1) = Some y"
        by (simp add: count_between_def Let_def js_add_def js_sub_def js_int_2_53)
      then obtain rows1 where c: "f pipeline fq 9007199254740992 9007199254740992 rows = Some rows1"
        by (cases "f pipeline fq 9007199254740992 9007199254740992 rows") simp_all
      from 1(1) [OF c] r have "rows1 = rows" by simp
      with b c have "f pipeline fq 9007199254740992 9007199254740994 rows = Some y" by simp
      from 1(1) [OF this] r show False by simp
    qed
  qed
qed

lemma bisection_rounding_diverges:
  "syncMissingNearcoreBlocks pipeline fq 9007199254740992 9007199254740996
     [9007199254740992, 9007199254740996] = None"
proof -
  have "syncMissingNearcoreBlocks pipeline fq 9007199254740992 9007199254740994
     [9007199254740992, 9007199254740996] = None"
  proof (cases "syncMissingNearcoreBlocks pipeline fq 9007199254740992 9007199254740994
     [9007199254740992, 9007199254740996]")
    case None
    then show ?thesis .
  next
    case (Some y)
    from bisection_rounding_aux [OF this] show ?thesis by simp
  qed
  then show ?thesis
    by (subst syncMissingNearcoreBlocks.simps)
      (simp add: count_between_def Let_def js_add_def js_sub_def js_int_2_53)
qed

lemma gap_range_1_3: "gap_range [1, 3] = Some (2, 2)"
  by (simp add: gap_range_def findOne_height_desc_def findOne_height_asc_def js_add_def js_sub_def)

text \<open>
  C9 as stated: for every range \<open>lo \<le> hi\<close> and every state of the store the bisection
  returns. It does not return in three cases. With two rows of height 5 the range
  \<open>[5, 5]\<close> has the count 2, which is neither \<open>hi - lo + 1\<close> nor 0, and its first half is
  \<open>[5, 5]\<close> again. With \<open>FETCH_QUEUE\<close> set to \<open>-1\<close> and the stored heights 1 and 3, the range
  \<open>[2, 2]\<close> holds no stored height but \<open>hi - lo \<le> FETCH_QUEUE\<close> is false, so it is split
  into \<open>[2, 2]\<close> and an empty range. With the distinct stored heights \<open>2^53\<close> and \<open>2^53 + 4\<close>
  the range \<open>[2^53, 2^53 + 2]\<close> is split at \<open>mid = 2^53\<close>, and \<open>mid + 1\<close> is \<open>2^53\<close> in
  binary64, so its second half is the range itself.
\<close>

theorem gap_sync_divergence_counterexample:
  "syncMissingNearcoreBlocks all_fetched (Finite 2) 5 5 [5, 5] = None
   \<and> syncMissingNearcoreState all_fetched (Finite (- 1)) [1, 3] = None
   \<and> distinct [9007199254740992, 9007199254740996 :: int]
   \<and> syncMissingNearcoreState all_fetched (Finite 2) [9007199254740992, 9007199254740996] = None"
proof (intro conjI)
  show "syncMissingNearcoreBlocks all_fetched (Finite 2) 5 5 [5, 5] = None"
    by (rule bisection_duplicate_diverges)
  show "syncMissingNearcoreState all_fetched (Finite (- 1)) [1, 3] = None"
    unfolding syncMissingNearcoreState_def gap_range_1_3
    by (simp add: bisection_negative_diverges)
  show "distinct [9007199254740992, 9007199254740996 :: int]" by simp
  show "syncMissingNearcoreState all_fetched (Finite 2) [9007199254740992, 9007199254740996] = None"
    unfolding syncMissingNearcoreState_def gap_range_2_53
    by (simp add: bisection_rounding_diverges)
qed

text \<open>
  C9, amended. When \<open>0 \<le> lo \<le> hi < 2^52\<close>, \<open>FETCH_QUEUE\<close> is a number that is at least 0,
  the stored heights are pairwise distinct, and the pipeline returns and keeps them
  distinct on a range that holds no stored height, the bisection of \<open>[lo, hi]\<close> returns.
  A call reaches its recursive calls only when \<open>lo < hi\<close>, and then \<open>mid\<close> is
  \<open>(lo + hi) div 2\<close> and both \<open>[lo, mid]\<close> and \<open>[mid + 1, hi]\<close> are non-empty and strictly
  smaller than \<open>[lo, hi]\<close>; the depth \<open>d\<close> of the recursion (the number of nested recursive
  calls below the first call) is at most \<open>log2 (hi - lo + 1) + 1\<close>, and more precisely
  \<open>d = 0\<close> or \<open>2^d \<le> 2 * (hi - lo)\<close>.
\<close>

theorem gap_sync_terminates:
  assumes "0 \<le> lo" and "lo \<le> hi" and "hi < 2 ^ 52" and "distinct rows" and "js_le 0 fq"
    and "\<And>h l rs. distinct rs \<Longrightarrow> count_between rs l h = 0 \<Longrightarrow>
           \<exists>rs'. pipeline h l rs = Some rs' \<and> distinct rs'"
  shows "(\<exists>rows' d.
            syncMissingNearcoreBlocks pipeline fq lo hi rows = Some rows'
          \<and> syncMissingNearcoreBlocks_depth pipeline fq lo hi rows = Some (rows', d)
          \<and> (d = 0 \<or> 2 ^ d \<le> 2 * nat (hi - lo))
          \<and> real d \<le> log 2 (real_of_int (hi - lo + 1)) + 1)
       \<and> (recurses fq lo hi rows \<longrightarrow>
            lo < hi
          \<and> js_add lo hi div 2 = (lo + hi) div 2 \<and> js_add ((lo + hi) div 2) 1 = (lo + hi) div 2 + 1
          \<and> lo \<le> (lo + hi) div 2 \<and> (lo + hi) div 2 + 1 \<le> hi
          \<and> (lo + hi) div 2 - lo + 1 < hi - lo + 1
          \<and> hi - ((lo + hi) div 2 + 1) + 1 < hi - lo + 1)"
proof (intro conjI impI)
  from bisection_total [of pipeline fq rows lo hi "nat (hi - lo + 1)"] assms
  obtain rows' d where r:
    "syncMissingNearcoreBlocks pipeline fq lo hi rows = Some rows'"
    "syncMissingNearcoreBlocks_depth pipeline fq lo hi rows = Some (rows', d)"
    "d = 0 \<or> 2 ^ d \<le> 2 * (nat (hi - lo + 1) - 1)"
    by blast
  have "real d \<le> log 2 (real_of_int (hi - lo + 1)) + 1"
    using depth_le_log [of "hi - lo + 1" d] assms(2) r(3) by simp
  moreover have "nat (hi - lo + 1) - 1 = nat (hi - lo)"
    using assms(2) by simp
  then have "d = 0 \<or> 2 ^ d \<le> 2 * nat (hi - lo)"
    using r(3) by simp
  ultimately show "\<exists>rows' d.
            syncMissingNearcoreBlocks pipeline fq lo hi rows = Some rows'
          \<and> syncMissingNearcoreBlocks_depth pipeline fq lo hi rows = Some (rows', d)
          \<and> (d = 0 \<or> 2 ^ d \<le> 2 * nat (hi - lo))
          \<and> real d \<le> log 2 (real_of_int (hi - lo + 1)) + 1"
    using r(1,2) by blast
next
  assume "recurses fq lo hi rows"
  then have lt: "lo < hi" using recurses_lt [OF assms(4,1,2,3,5)] by blast
  then show "lo < hi" .
  show "js_add lo hi div 2 = (lo + hi) div 2" by (simp add: js_arith_safe [OF assms(1,2,3)])
  show "js_add ((lo + hi) div 2) 1 = (lo + hi) div 2 + 1" by (rule js_arith_safe [OF assms(1,2,3)])
  from lt show "lo \<le> (lo + hi) div 2" by simp
  from lt show "(lo + hi) div 2 + 1 \<le> hi" by simp
  from lt show "(lo + hi) div 2 - lo + 1 < hi - lo + 1" by simp
  from lt show "hi - ((lo + hi) div 2 + 1) + 1 < hi - lo + 1" by simp
qed

theorem gap_sync_terminates_witness:
  "(0 :: int) \<le> 2 \<and> (2 :: int) \<le> 4 \<and> (4 :: int) < 2 ^ 52 \<and> distinct [1, 3, 5 :: int]
   \<and> js_le 0 (Finite 2)
   \<and> syncMissingNearcoreBlocks all_fetched (Finite 2) 2 4 [1, 3, 5] = Some [1, 3, 5, 2, 4]
   \<and> syncMissingNearcoreBlocks_depth all_fetched (Finite 2) 2 4 [1, 3, 5] = Some ([1, 3, 5, 2, 4], 2)
   \<and> real 2 \<le> log 2 (real_of_int (4 - 2 + 1)) + 1
   \<and> recurses (Finite 2) 2 4 [1, 3, 5]
   \<and> (2 :: int) < 4"
proof -
  have a: "(0 :: int) \<le> 2" "(2 :: int) \<le> 4" "(4 :: int) < 2 ^ 52" by simp_all
  have b: "distinct [1, 3, 5 :: int]" by simp
  have f: "js_le 0 (Finite 2)" by simp
  have c: "recurses (Finite 2) 2 4 [1, 3, 5]"
    by (simp add: recurses_def count_between_def js_add_def js_sub_def)
  note t = gap_sync_terminates [where pipeline = all_fetched and fq = "Finite 2",
      OF a b f all_fetched_distinct]
  from t obtain rows' d where r:
    "syncMissingNearcoreBlocks all_fetched (Finite 2) 2 4 [1, 3, 5] = Some rows'"
    "syncMissingNearcoreBlocks_depth all_fetched (Finite 2) 2 4 [1, 3, 5] = Some (rows', d)"
    "real d \<le> log 2 (real_of_int (4 - 2 + 1)) + 1"
    by blast
  from r(2) have "d = 2" by (simp add: gap_scenario_depth)
  with r(3) have 1: "real 2 \<le> log 2 (real_of_int (4 - 2 + 1)) + 1" by simp
  from t c have 2: "(2 :: int) < 4" by blast
  from a b c f 1 2 gap_scenario gap_scenario_depth show ?thesis by blast
qed

subsection \<open>C2 and C6: what saveBlocks commits\<close>

text \<open>
  C2, evaluated at a failing input: a batch of one block for which the insertion of the
  Chunk rows rejects. The rejection is caught inside the transaction callback, so the
  callback's promise is fulfilled and the transaction commits the Block row that was
  written before: the store then holds a Block without its Chunk and its Transaction.
\<close>

theorem saveBlocks_commits_partial_batch:
  "(let w = saveBlocks chunk_insert_fails [Defined sample_block] empty_world
    in map b_hash (Blocks (db w)) = [''H5'']
     \<and> Chunks (db w) = []
     \<and> Transactions (db w) = []
     \<and> unawaited w = []
     \<and> console w = [Warn_save (DatabaseError ''constraint'')])"
  by (simp add: saveBlocks_def transaction_callback_def chunk_insert_fails_def sample_block_def
      empty_world_def blockRow_def chunkRow_def toBase58_def Let_def)

text \<open>
  C6, evaluated at a failing input: a batch of one block with one transaction. When
  \<open>saveBlocks\<close> has committed, the Block and Chunk rows are stored and the insertion of the
  Transaction row has been started but is awaited by nobody; when that insertion rejects,
  nothing is logged and the store keeps the Block and the Chunk without the Transaction.
\<close>

theorem saveBlocks_does_not_await_transactions:
  "(let w = saveBlocks all_succeed [Defined sample_block] empty_world
    in map b_hash (Blocks (db w)) = [''H5'']
     \<and> map c_hash (Chunks (db w)) = [''H5'']
     \<and> Transactions (db w) = []
     \<and> unawaited w =
         [Transaction_bulkCreate
            [\<lparr> t_hash = ''T1'', t_originator = Defined ''alice'', t_destination = ''n/a'',
                t_kind = ''SendMoney'', t_args = [(''originator'', ''alice'')], t_parentHash = None,
                t_chunkHash = ''H5'', t_status = ''Completed'', t_logs = [] \<rparr>]]
     \<and> console w = [])
   \<and> (let w = settle transaction_insert_fails
                (saveBlocks transaction_insert_fails [Defined sample_block] empty_world)
      in map b_hash (Blocks (db w)) = [''H5'']
       \<and> map c_hash (Chunks (db w)) = [''H5'']
       \<and> Transactions (db w) = []
       \<and> console w = [])"
  by (simp add: saveBlocks_def transaction_callback_def all_succeed_def transaction_insert_fails_def
      sample_block_def empty_world_def blockRow_def chunkRow_def transactionRow_def toBase58_def
      defined_blocks_def settle_def Let_def)

subsection \<open>C8: the HTTP telemetry handler\<close>





end
